theory Spec2Isabelle
  imports Main "HOL-Library.Word"
begin

unbundle bit_operations_syntax

section \<open>JavaScript numbers, operators and strings\<close>

text \<open>
  The library is TypeScript. A \<open>number\<close> is modelled as an \<open>int\<close>: the integer-valued
  doubles, which are exact up to \<open>2 ^ 53\<close>; fractions and infinities are outside the model.
  \<open>NaN\<close> and \<open>undefined\<close> occur only as array elements and are \<open>None\<close> there.

  The bitwise operators convert their operands with ToInt32 (the value modulo \<open>2 ^ 32\<close>,
  as a bit pattern), work on the 32 bits, and read the result as a signed 32-bit integer;
  \<open>>>>\<close> reads it as unsigned. A shift count is taken modulo 32.
\<close>

definition js_and :: "int \<Rightarrow> int \<Rightarrow> int" where
  "js_and a b = sint ((word_of_int a :: 32 word) AND word_of_int b)"

definition js_or :: "int \<Rightarrow> int \<Rightarrow> int" where
  "js_or a b = sint ((word_of_int a :: 32 word) OR word_of_int b)"

definition js_xor :: "int \<Rightarrow> int \<Rightarrow> int" where
  "js_xor a b = sint ((word_of_int a :: 32 word) XOR word_of_int b)"

definition js_not :: "int \<Rightarrow> int" where
  "js_not a = sint (NOT (word_of_int a :: 32 word))"

definition js_shl :: "int \<Rightarrow> int \<Rightarrow> int" where
  "js_shl a k = sint (push_bit (nat (k mod 32)) (word_of_int a :: 32 word))"

definition js_ushr :: "int \<Rightarrow> int \<Rightarrow> int" where
  "js_ushr a k = uint (drop_bit (nat (k mod 32)) (word_of_int a :: 32 word))"

text \<open>An array element used as an operand of a bitwise operator: ToInt32 sends
  \<open>NaN\<close> and \<open>undefined\<close> to 0. Reading past the end of an array gives \<open>undefined\<close>.\<close>

definition js_index :: "int option list \<Rightarrow> nat \<Rightarrow> int option" where
  "js_index xs i = (if i < length xs then xs ! i else None)"

definition operand :: "int option \<Rightarrow> int" where
  "operand x = (case x of None \<Rightarrow> 0 | Some v \<Rightarrow> v)"

text \<open>Strings are lists of characters; \<open>charCodeAt\<close> is \<open>of_char\<close>. Code units above 255
  are outside the model.\<close>

definition digit_char :: "nat \<Rightarrow> char" where
  "digit_char d = char_of (48 + d)"

definition is_digit :: "char \<Rightarrow> bool" where
  "is_digit c = (48 \<le> (of_char c :: nat) \<and> (of_char c :: nat) \<le> 57)"

definition digit_val :: "char \<Rightarrow> nat" where
  "digit_val c = of_char c - 48"

text \<open>The decimal rendering of a non-negative integer, as \<open>String(n)\<close> and the template
  literals give it (below \<open>10 ^ 21\<close>, where JavaScript switches to exponent notation).\<close>

function digits_of :: "nat \<Rightarrow> string" where
  "digits_of n = (if n < 10 then [digit_char n] else digits_of (n div 10) @ [digit_char (n mod 10)])"
  by pat_completeness auto
termination
  by (relation "measure id") auto

declare digits_of.simps [simp del]

definition js_toString :: "int \<Rightarrow> string" where
  "js_toString n = (if n < 0 then CHR ''-'' # digits_of (nat (- n)) else digits_of (nat n))"

definition dec_value :: "string \<Rightarrow> nat" where
  "dec_value s = foldl (\<lambda>acc c. acc * 10 + digit_val c) 0 s"

text \<open>\<open>s.split(sep)\<close> for a one-character separator: the pieces between the separators,
  empty pieces included; the empty string splits into one empty piece.\<close>

fun js_split :: "char \<Rightarrow> string \<Rightarrow> string list" where
  "js_split sep [] = [[]]"
| "js_split sep (c # cs) =
     (if c = sep then [] # js_split sep cs
      else (case js_split sep cs of [] \<Rightarrow> [[c]] | p # ps \<Rightarrow> (c # p) # ps))"

text \<open>\<open>xs.join(sep)\<close> on an array of strings.\<close>

fun js_join :: "string \<Rightarrow> string list \<Rightarrow> string" where
  "js_join sep [] = []"
| "js_join sep [x] = x"
| "js_join sep (x # y # ys) = x @ sep @ js_join sep (y # ys)"

text \<open>\<open>parseInt(s, 10)\<close>: leading white space is skipped, one sign is read, then the
  longest run of decimal digits; no digit gives \<open>NaN\<close> (\<open>None\<close>). Whatever follows the
  digits is ignored.\<close>

definition js_whitespace :: "char \<Rightarrow> bool" where
  "js_whitespace c = ((of_char c :: nat) \<in> {9, 10, 11, 12, 13, 32, 160})"

definition parseInt :: "string \<Rightarrow> int option" where
  "parseInt s =
     (let s1 = dropWhile js_whitespace s;
          sign = (case s1 of c # _ \<Rightarrow> if c = CHR ''-'' then - 1 else 1 | [] \<Rightarrow> (1 :: int));
          s2 = (case s1 of c # r \<Rightarrow> if c = CHR ''-'' \<or> c = CHR ''+'' then r else s1 | [] \<Rightarrow> []);
          z = takeWhile is_digit s2
      in if z = [] then None else Some (sign * int (dec_value z)))"

text \<open>\<open>Number(s)\<close> on a string of decimal digits (the only strings that the components of
  a well-formed address are): its value, and 0 for the empty string. The other numeric
  literals of JavaScript (signs, exponents, hexadecimal, surrounding white space) are not
  modelled; the model answers \<open>None\<close> on them, and no theorem below applies it there.\<close>

definition js_Number :: "string \<Rightarrow> int option" where
  "js_Number s = (if list_all is_digit s then Some (int (dec_value s)) else None)"

section \<open>Errors\<close>

text \<open>The error classes of \<open>errors.ts\<close> and \<open>operations.ts\<close>, each with the message given
  to its constructor; \<open>Error\<close> is the built-in class.\<close>

datatype error =
    Error string
  | IPv4ValidationError string
  | IPv4SubnetError string
  | IPv4ArithmeticError string

section \<open>lib/bitwise: basic.ts and bitmask.ts\<close>

definition and_basic :: "int \<Rightarrow> int \<Rightarrow> int" where
  "and_basic a b = js_and a b"

definition or_basic :: "int \<Rightarrow> int \<Rightarrow> int" where
  "or_basic a b = js_or a b"

definition not_basic :: "int \<Rightarrow> int" where
  "not_basic n = js_ushr (js_not n) 0"

definition MAX_32BIT_VALUE :: int where
  "MAX_32BIT_VALUE = 0xFFFFFFFF"

definition generateBitmask :: "int \<Rightarrow> error + int" where
  "generateBitmask numBits =
     (if numBits < 0 \<or> numBits > 32
      then Inl (Error ''Invalid number of bits. Must be between 0 and 32 inclusive.'')
      else Inr (if numBits = 0 then 0 else js_ushr (js_shl MAX_32BIT_VALUE (32 - numBits)) 0))"

definition applyMask :: "int \<Rightarrow> int \<Rightarrow> int" where
  "applyMask v msk = js_ushr (js_and v msk) 0"

definition invertMask :: "int \<Rightarrow> int" where
  "invertMask msk = js_ushr (js_not msk) 0"

definition extractBits :: "int \<Rightarrow> int \<Rightarrow> int \<Rightarrow> error + int" where
  "extractBits n start endpos =
     (if start < 0 \<or> endpos > 31 \<or> start > endpos
      then Inl (Error ''Invalid bit range. Start and end positions must be between 0 and 31 inclusive, and start <= end.'')
      else (let msk = js_shl (js_shl 1 (endpos - start + 1) - 1) start
            in Inr (js_ushr (js_and n msk) start)))"

text \<open>The loop of \<open>countLeadingOnes\<close>, on the complemented value.\<close>

function countLeadingOnes_loop :: "int \<Rightarrow> int \<Rightarrow> int" where
  "countLeadingOnes_loop n count =
     (if js_and n 0x80000000 = 0 \<and> count < 32
      then countLeadingOnes_loop (js_shl n 1) (count + 1)
      else count)"
  by pat_completeness auto
termination
  by (relation "measure (\<lambda>(n, count). nat (32 - count))") auto

declare countLeadingOnes_loop.simps [simp del]

definition countLeadingOnes :: "int \<Rightarrow> int" where
  "countLeadingOnes n = countLeadingOnes_loop (js_not n) 0"

section \<open>util/octet.ts\<close>

definition extractOctet :: "int \<Rightarrow> int \<Rightarrow> error + int" where
  "extractOctet ip octetPosition =
     (if octetPosition < 0 \<or> octetPosition > 3
      then Inl (Error ''Invalid octet position. Must be between 0 and 3 inclusive.'')
      else extractBits ip ((3 - octetPosition) * 8) ((3 - octetPosition) * 8 + 7))"

definition setOctet :: "int \<Rightarrow> int \<Rightarrow> int \<Rightarrow> error + int" where
  "setOctet ip octetPosition v =
     (if octetPosition < 0 \<or> octetPosition > 3
      then Inl (Error ''Invalid octet position. Must be between 0 and 3 inclusive.'')
      else if v < 0 \<or> v > 255
      then Inl (Error ''Invalid octet value. Must be between 0 and 255 inclusive.'')
      else (let shiftAmount = (3 - octetPosition) * 8;
                msk = js_not (js_shl 0xFF shiftAmount)
            in Inr (js_ushr (js_or (js_and ip msk) (js_shl v shiftAmount)) 0)))"

definition bitflagToOctets :: "int \<Rightarrow> int list" where
  "bitflagToOctets ip =
     [js_and (js_ushr ip 24) 0xFF, js_and (js_ushr ip 16) 0xFF, js_and (js_ushr ip 8) 0xFF, js_and ip 0xFF]"

text \<open>\<open>octetsToBitflag\<close> has no check and no \<open>throw\<close>: it is a total function of the array.\<close>

definition octetsToBitflag :: "int option list \<Rightarrow> int" where
  "octetsToBitflag octets =
     js_ushr
       (js_or
          (js_or
             (js_or (js_shl (operand (js_index octets 0)) 24) (js_shl (operand (js_index octets 1)) 16))
             (js_shl (operand (js_index octets 2)) 8))
          (operand (js_index octets 3)))
       0"

section \<open>util/mask.ts\<close>

definition IPV4_MIN_PREFIX_LENGTH :: int where
  "IPV4_MIN_PREFIX_LENGTH = 0"

definition IPV4_MAX_PREFIX_LENGTH :: int where
  "IPV4_MAX_PREFIX_LENGTH = 32"

text \<open>\<open>Number.isInteger\<close> holds of every number of the model.\<close>

definition createMask :: "int \<Rightarrow> error + int" where
  "createMask prefixLength =
     (if prefixLength < IPV4_MIN_PREFIX_LENGTH \<or> prefixLength > IPV4_MAX_PREFIX_LENGTH
      then Inl (IPv4ValidationError
             (''Invalid prefix length: '' @ js_toString prefixLength
               @ ''. Must be an integer between 0 and 32.''))
      else (case generateBitmask prefixLength of
              Inl e \<Rightarrow> Inl e
            | Inr m \<Rightarrow> Inr (js_ushr m 0)))"

definition getMaskPrefix :: "int \<Rightarrow> error + int" where
  "getMaskPrefix msk =
     (let prefix = countLeadingOnes msk
      in case createMask prefix of
           Inl e \<Rightarrow> Inl e
         | Inr m \<Rightarrow>
             if js_ushr msk 0 \<noteq> js_ushr m 0
             then Inl (IPv4ValidationError ''Invalid subnet mask'')
             else Inr prefix)"

definition invertMaskBits :: "int \<Rightarrow> int" where
  "invertMaskBits msk = js_ushr (invertMask msk) 0"

definition mask_applyMask :: "int \<Rightarrow> int \<Rightarrow> int" where
  "mask_applyMask ip msk = js_ushr (and_basic ip msk) 0"

definition combineMasks :: "int \<Rightarrow> int \<Rightarrow> int" where
  "combineMasks mask1 mask2 = js_ushr (and_basic mask1 mask2) 0"

text \<open>Sequencing of calls that may throw: the first error is the result.\<close>

definition and_then :: "error + 'a \<Rightarrow> ('a \<Rightarrow> error + 'b) \<Rightarrow> error + 'b" where
  "and_then m f = (case m of Inl e \<Rightarrow> Inl e | Inr x \<Rightarrow> f x)"

section \<open>util/parse.ts\<close>

record ValidationResult =
  isValid :: bool
  reason :: "string option"

definition valid :: ValidationResult where
  "valid = \<lparr>isValid = True, reason = None\<rparr>"

definition invalid :: "string \<Rightarrow> ValidationResult" where
  "invalid msg = \<lparr>isValid = False, reason = Some msg\<rparr>"

definition IPV4_OCTET_COUNT :: nat where
  "IPV4_OCTET_COUNT = 4"

definition IPV4_MAX_OCTET_VALUE :: int where
  "IPV4_MAX_OCTET_VALUE = 255"

text \<open>The constant is declared in \<open>validate.ts\<close> and pinned by the test of the constants:
  bit 14 and bits 16 to 25, for the codes 46 and 48 to 57.\<close>

definition VALID_IPV4_CHARS :: int where
  "VALID_IPV4_CHARS = 0x03FF4000"

definition isValidChar :: "int \<Rightarrow> int \<Rightarrow> bool" where
  "isValidChar charCode validCharMask = (js_and validCharMask (js_shl 1 charCode) \<noteq> 0)"

text \<open>The first loop of \<open>validateIPv4\<close>: \<open>Some\<close> is its early return.\<close>

fun check_chars :: "string \<Rightarrow> ValidationResult option" where
  "check_chars [] = None"
| "check_chars (c # cs) =
     (if \<not> isValidChar (of_char c) VALID_IPV4_CHARS
      then Some (invalid (''Invalid character in IP address: '' @ [c]))
      else check_chars cs)"

text \<open>The second loop, over the four components in order.\<close>

fun check_octets :: "string list \<Rightarrow> ValidationResult" where
  "check_octets [] = valid"
| "check_octets (t # ts) =
     (case parseInt t of
        None \<Rightarrow> invalid (''Invalid octet: '' @ t)
      | Some octet \<Rightarrow>
          if octet < 0 \<or> octet > IPV4_MAX_OCTET_VALUE
          then invalid (''Octet out of range: '' @ js_toString octet)
          else if length t > 1 \<and> hd t = CHR ''0''
          then invalid (''Leading zeros are not allowed: '' @ t)
          else check_octets ts)"

definition validateIPv4 :: "string \<Rightarrow> ValidationResult" where
  "validateIPv4 ip =
     (case check_chars ip of
        Some r \<Rightarrow> r
      | None \<Rightarrow>
          (let octets = js_split CHR ''.'' ip
           in if length octets \<noteq> IPV4_OCTET_COUNT
              then invalid ''IPv4 address must have exactly 4 octets''
              else check_octets octets))"

definition parseIPv4 :: "string \<Rightarrow> error + int" where
  "parseIPv4 ip =
     (let validationResult = validateIPv4 ip
      in if \<not> isValid validationResult
         then Inl (IPv4ValidationError
                (case reason validationResult of
                   None \<Rightarrow> ''Invalid IPv4 address''
                 | Some msg \<Rightarrow> if msg = [] then ''Invalid IPv4 address'' else msg))
         else Inr (octetsToBitflag (map parseInt (js_split CHR ''.'' ip))))"

definition formatIPv4 :: "int \<Rightarrow> string" where
  "formatIPv4 bitflag = js_join ''.'' (map js_toString (bitflagToOctets bitflag))"

section \<open>core/operations.ts\<close>

definition ipToBitflag :: "string \<Rightarrow> int" where
  "ipToBitflag ip = octetsToBitflag (map js_Number (js_split CHR ''.'' ip))"

definition bitflagToIP :: "int \<Rightarrow> string" where
  "bitflagToIP bitflag = js_join ''.'' (map js_toString (bitflagToOctets bitflag))"

definition incrementIP :: "string \<Rightarrow> int \<Rightarrow> error + string" where
  "incrementIP ip amount =
     (let bitflag = ipToBitflag ip;
          result = js_ushr (bitflag + amount) 0
      in if result > 0xFFFFFFFF
         then Inl (IPv4ArithmeticError ''Increment operation results in an invalid IPv4 address'')
         else Inr (bitflagToIP result))"

definition decrementIP :: "string \<Rightarrow> int \<Rightarrow> error + string" where
  "decrementIP ip amount =
     (let bitflag = ipToBitflag ip;
          result = js_ushr (bitflag - amount) 0
      in if bitflag < amount
         then Inl (IPv4ArithmeticError ''Decrement operation results in an invalid IPv4 address'')
         else Inr (bitflagToIP result))"

definition isIPInRange :: "string \<Rightarrow> string \<Rightarrow> string \<Rightarrow> bool" where
  "isIPInRange ip startIP endIP =
     (let ipBitflag = ipToBitflag ip;
          startBitflag = ipToBitflag startIP;
          endBitflag = ipToBitflag endIP
      in ipBitflag \<ge> startBitflag \<and> ipBitflag \<le> endBitflag)"

section \<open>core/cidr.ts\<close>

text \<open>Modelled from the spec: \<open>createSubnetMask\<close>, which \<open>cidr.ts\<close> calls and whose body
  is absent from the sources (\<open>util/mask.ts\<close> holds its declaration and doc comment only:
  ``creates a subnet mask from a given prefix length (0-32)''). The spec's
  \<open>maskFromPrefix(n)\<close> is the 32-bit value with the top \<open>n\<close> bits set, failing with an
  invalid-mask error for \<open>n\<close> outside 0 to 32; \<open>createMask\<close> of the same module computes
  exactly that.\<close>

definition createSubnetMask :: "int \<Rightarrow> error + int" where
  "createSubnetMask prefixLength = createMask prefixLength"

definition calculateNetworkAddress :: "string \<Rightarrow> int \<Rightarrow> error + string" where
  "calculateNetworkAddress ip prefixLength =
     and_then (parseIPv4 ip) (\<lambda>ipBitflag.
     and_then (createSubnetMask prefixLength) (\<lambda>msk.
       (let networkBitflag = js_ushr (applyMask ipBitflag msk) 0
        in Inr (formatIPv4 networkBitflag))))"

definition calculateBroadcastAddress :: "string \<Rightarrow> int \<Rightarrow> error + string" where
  "calculateBroadcastAddress ip prefixLength =
     and_then (parseIPv4 ip) (\<lambda>ipBitflag.
     and_then (createSubnetMask prefixLength) (\<lambda>msk.
       (let invertedMask = js_ushr (not_basic msk) 0;
            broadcastBitflag = js_ushr (or_basic ipBitflag invertedMask) 0
        in Inr (formatIPv4 broadcastBitflag))))"

definition getIPRange :: "string \<Rightarrow> int \<Rightarrow> error + string \<times> string" where
  "getIPRange networkAddress prefixLength =
     and_then (calculateNetworkAddress networkAddress prefixLength) (\<lambda>firstIP.
     and_then (calculateBroadcastAddress networkAddress prefixLength) (\<lambda>lastIP.
       Inr (firstIP, lastIP)))"

text \<open>The loop of \<open>splitSubnet\<close>; \<open>newSubnets\<close> is the array built so far.\<close>

function splitSubnet_loop :: "int \<Rightarrow> int \<Rightarrow> int \<Rightarrow> int \<Rightarrow> string list \<Rightarrow> error + string list" where
  "splitSubnet_loop networkInt newSubnetSize numNewSubnets i newSubnets =
     (if i < numNewSubnets
      then (let newSubnetInt = js_ushr (networkInt + i * newSubnetSize) 0
            in if newSubnetInt > 0xFFFFFFFF
               then Inl (IPv4SubnetError ''Address space overflow'')
               else splitSubnet_loop networkInt newSubnetSize numNewSubnets (i + 1)
                      (newSubnets @ [formatIPv4 newSubnetInt]))
      else Inr newSubnets)"
  by pat_completeness auto
termination
  by (relation "measure (\<lambda>(networkInt, newSubnetSize, numNewSubnets, i, newSubnets). nat (numNewSubnets - i))") auto

declare splitSubnet_loop.simps [simp del]

text \<open>\<open>Math.pow(2, k)\<close> is taken at exponents that the guard has made positive
  (\<open>newPrefixLength - currentPrefixLength\<close>) or non-negative (\<open>32 - newPrefixLength\<close>).\<close>

definition splitSubnet :: "string \<Rightarrow> int \<Rightarrow> int \<Rightarrow> error + string list" where
  "splitSubnet networkAddress currentPrefixLength newPrefixLength =
     (if newPrefixLength \<le> currentPrefixLength \<or> newPrefixLength > IPV4_MAX_PREFIX_LENGTH
      then Inl (IPv4SubnetError ''Invalid new prefix length for splitting'')
      else and_then (parseIPv4 networkAddress) (\<lambda>networkInt.
             (let numNewSubnets = 2 ^ nat (newPrefixLength - currentPrefixLength);
                  newSubnetSize = 2 ^ nat (IPV4_MAX_PREFIX_LENGTH - newPrefixLength)
              in splitSubnet_loop networkInt newSubnetSize numNewSubnets 0 [])))"

definition isSubnetOf :: "string \<Rightarrow> int \<Rightarrow> string \<Rightarrow> int \<Rightarrow> error + bool" where
  "isSubnetOf subnetA prefixLengthA subnetB prefixLengthB =
     (if prefixLengthA \<le> prefixLengthB then Inr False
      else and_then (parseIPv4 subnetA) (\<lambda>networkA.
           and_then (parseIPv4 subnetB) (\<lambda>networkB.
           and_then (createSubnetMask prefixLengthB) (\<lambda>maskB.
             Inr (applyMask networkA maskB = applyMask networkB maskB)))))"

section \<open>core/special.ts\<close>

text \<open>The ranges are built with \<open>assertIPv4Address\<close>, which returns a well-formed address
  as it is.\<close>

definition PRIVATE_RANGES :: "(string \<times> string) list" where
  "PRIVATE_RANGES =
     [(''10.0.0.0'', ''10.255.255.255''),
      (''172.16.0.0'', ''172.31.255.255''),
      (''192.168.0.0'', ''192.168.255.255'')]"

definition LOOPBACK_RANGE :: "string \<times> string" where
  "LOOPBACK_RANGE = (''127.0.0.0'', ''127.255.255.255'')"

definition LINK_LOCAL_RANGE :: "string \<times> string" where
  "LINK_LOCAL_RANGE = (''169.254.0.0'', ''169.254.255.255'')"

definition MULTICAST_RANGE :: "string \<times> string" where
  "MULTICAST_RANGE = (''224.0.0.0'', ''239.255.255.255'')"

definition BROADCAST_IP :: string where
  "BROADCAST_IP = ''255.255.255.255''"

definition DOCUMENTATION_RANGES :: "(string \<times> string) list" where
  "DOCUMENTATION_RANGES =
     [(''192.0.2.0'', ''192.0.2.255''),
      (''198.51.100.0'', ''198.51.100.255''),
      (''203.0.113.0'', ''203.0.113.255'')]"

definition BENCHMARKING_RANGE :: "string \<times> string" where
  "BENCHMARKING_RANGE = (''198.18.0.0'', ''198.19.255.255'')"

definition SHARED_ADDRESS_SPACE_RANGE :: "string \<times> string" where
  "SHARED_ADDRESS_SPACE_RANGE = (''100.64.0.0'', ''100.127.255.255'')"

definition RESERVED_RANGES :: "(string \<times> string) list" where
  "RESERVED_RANGES =
     [(''0.0.0.0'', ''0.255.255.255''),
      (''240.0.0.0'', ''255.255.255.254'')]"

definition isPrivateIP :: "string \<Rightarrow> bool" where
  "isPrivateIP ip = list_ex (\<lambda>(start, endIP). isIPInRange ip start endIP) PRIVATE_RANGES"

definition isLoopbackIP :: "string \<Rightarrow> bool" where
  "isLoopbackIP ip = isIPInRange ip (fst LOOPBACK_RANGE) (snd LOOPBACK_RANGE)"

definition isLinkLocalIP :: "string \<Rightarrow> bool" where
  "isLinkLocalIP ip = isIPInRange ip (fst LINK_LOCAL_RANGE) (snd LINK_LOCAL_RANGE)"

definition isMulticastIP :: "string \<Rightarrow> bool" where
  "isMulticastIP ip = isIPInRange ip (fst MULTICAST_RANGE) (snd MULTICAST_RANGE)"

definition isBroadcastIP :: "string \<Rightarrow> bool" where
  "isBroadcastIP ip = (ip = BROADCAST_IP)"

definition isDocumentationIP :: "string \<Rightarrow> bool" where
  "isDocumentationIP ip = list_ex (\<lambda>(start, endIP). isIPInRange ip start endIP) DOCUMENTATION_RANGES"

definition isBenchmarkingIP :: "string \<Rightarrow> bool" where
  "isBenchmarkingIP ip = isIPInRange ip (fst BENCHMARKING_RANGE) (snd BENCHMARKING_RANGE)"

definition isSharedAddressSpaceIP :: "string \<Rightarrow> bool" where
  "isSharedAddressSpaceIP ip =
     isIPInRange ip (fst SHARED_ADDRESS_SPACE_RANGE) (snd SHARED_ADDRESS_SPACE_RANGE)"

definition isReservedIP :: "string \<Rightarrow> bool" where
  "isReservedIP ip = list_ex (\<lambda>(start, endIP). isIPInRange ip start endIP) RESERVED_RANGES"

definition getSpecialIPType :: "string \<Rightarrow> string" where
  "getSpecialIPType ip =
     (if isPrivateIP ip then ''Private''
      else if isLoopbackIP ip then ''Loopback''
      else if isLinkLocalIP ip then ''Link-local''
      else if isMulticastIP ip then ''Multicast''
      else if isBroadcastIP ip then ''Broadcast''
      else if isBenchmarkingIP ip then ''Benchmarking''
      else if isSharedAddressSpaceIP ip then ''Shared Address Space''
      else if isDocumentationIP ip then ''Documentation''
      else if isReservedIP ip then ''Reserved''
      else ''Public'')"

section \<open>util/classify.ts\<close>

text \<open>The predicates of \<open>classify.ts\<close> work on bitflags; they carry the suffix \<open>_bitflag\<close>
  here, since \<open>special.ts\<close> has predicates of the same names on address strings.\<close>

definition isMulticastIP_bitflag :: "int \<Rightarrow> error + bool" where
  "isMulticastIP_bitflag ip =
     and_then (generateBitmask 4) (\<lambda>m. Inr (applyMask ip m = 0xE0000000))"

definition isReservedIP_bitflag :: "int \<Rightarrow> error + bool" where
  "isReservedIP_bitflag ip =
     and_then (generateBitmask 8) (\<lambda>m8.
       if applyMask ip m8 = 0x00000000 then Inr True
       else and_then (generateBitmask 10) (\<lambda>m10.
       if applyMask ip m10 = 0x64400000 then Inr True
       else and_then (generateBitmask 24) (\<lambda>m24.
       if applyMask ip m24 = 0xC0000000 then Inr True
       else if applyMask ip m24 = 0xC0000200 then Inr True
       else if applyMask ip m24 = 0xC6336400 then Inr True
       else if applyMask ip m24 = 0xCB007100 then Inr True
       else and_then (generateBitmask 4) (\<lambda>m4.
       if applyMask ip m4 = 0xF0000000 then Inr True
       else Inr False))))"

definition getMulticastType :: "int \<Rightarrow> error + string" where
  "getMulticastType ip =
     and_then (isMulticastIP_bitflag ip) (\<lambda>multicast.
       if \<not> multicast then Inr ''Not Multicast''
       else and_then (extractOctet ip 0) (\<lambda>firstOctet.
            and_then (isReservedIP_bitflag ip) (\<lambda>reserved.
              if reserved then Inr ''Reserved''
              else if firstOctet = 224 then Inr ''Well-Known Multicast''
              else if firstOctet = 225 then Inr ''Transient Multicast''
              else if firstOctet = 238
              then and_then (generateBitmask 24) (\<lambda>m24.
                     if applyMask ip m24 = 0xEE000000
                     then Inr ''Unicast-Prefix-based Multicast''
                     else Inr ''Reserved'')
              else if firstOctet = 239 then Inr ''Administratively Scoped''
              else if firstOctet \<ge> 232 \<and> firstOctet \<le> 235 then Inr ''Source-Specific Multicast''
              else if firstOctet \<ge> 236 \<and> firstOctet \<le> 237 then Inr ''GLOP Addressing''
              else Inr ''Reserved'')))"

section \<open>Notions of the specification\<close>

text \<open>A canonical octet is a decimal numeral of a value from 0 to 255 with no leading
  zero, the single digit \<open>0\<close> apart; a canonical dotted-decimal string is four of them
  joined by dots.\<close>

definition canonical_octet :: "string \<Rightarrow> bool" where
  "canonical_octet t =
     (t \<noteq> [] \<and> list_all is_digit t \<and> (length t > 1 \<longrightarrow> hd t \<noteq> CHR ''0'') \<and> dec_value t \<le> 255)"

definition dotted :: "string \<Rightarrow> string \<Rightarrow> string \<Rightarrow> string \<Rightarrow> string" where
  "dotted a b c d = a @ ''.'' @ b @ ''.'' @ c @ ''.'' @ d"

text \<open>A contiguous mask: \<open>n\<close> leading ones followed by \<open>32 - n\<close> zeros, that is
  \<open>2 ^ 32 - 2 ^ k\<close> with \<open>k = 32 - n\<close> trailing zeros.\<close>

definition contiguous_mask :: "int \<Rightarrow> bool" where
  "contiguous_mask v = list_ex (\<lambda>k. v = 2 ^ 32 - 2 ^ k) [0..<33]"

text \<open>The text of the octet of a bitflag that starts at bit \<open>k\<close>.\<close>

definition octet_text :: "int \<Rightarrow> nat \<Rightarrow> string" where
  "octet_text n k = digits_of (nat (uint (drop_bit k (word_of_int n :: 32 word) AND 255)))"

text \<open>The multicast sub-type of a 32-bit address by its first octet, in the words of the
  amended claim C4; \<open>getMulticastType\<close> is compared with it below.\<close>

definition multicast_subtype :: "int \<Rightarrow> string" where
  "multicast_subtype ip =
     (let firstOctet = ip div 2 ^ 24
      in if firstOctet < 224 \<or> 239 < firstOctet then ''Not Multicast''
         else if firstOctet = 224 then ''Well-Known Multicast''
         else if firstOctet = 225 then ''Transient Multicast''
         else if firstOctet \<le> 231 then ''Reserved''
         else if firstOctet \<le> 235 then ''Source-Specific Multicast''
         else if firstOctet \<le> 237 then ''GLOP Addressing''
         else if firstOctet = 238
         then (if ip div 2 ^ 8 = 0xEE0000 then ''Unicast-Prefix-based Multicast'' else ''Reserved'')
         else ''Administratively Scoped'')"

text \<open>The single-category classification in the order of precedence of the specification
  (Private, Loopback, Link-local, Multicast, Broadcast, Documentation, Benchmarking,
  Shared Address Space, Reserved, Public), over the numeric ranges of \<open>special.ts\<close>;
  \<open>getSpecialIPType\<close> is compared with it below.\<close>

definition classify_by_precedence :: "int \<Rightarrow> string" where
  "classify_by_precedence b =
     (if (0x0A000000 \<le> b \<and> b \<le> 0x0AFFFFFF) \<or> (0xAC100000 \<le> b \<and> b \<le> 0xAC1FFFFF)
          \<or> (0xC0A80000 \<le> b \<and> b \<le> 0xC0A8FFFF) then ''Private''
      else if 0x7F000000 \<le> b \<and> b \<le> 0x7FFFFFFF then ''Loopback''
      else if 0xA9FE0000 \<le> b \<and> b \<le> 0xA9FEFFFF then ''Link-local''
      else if 0xE0000000 \<le> b \<and> b \<le> 0xEFFFFFFF then ''Multicast''
      else if b = 0xFFFFFFFF then ''Broadcast''
      else if (0xC0000200 \<le> b \<and> b \<le> 0xC00002FF) \<or> (0xC6336400 \<le> b \<and> b \<le> 0xC63364FF)
          \<or> (0xCB007100 \<le> b \<and> b \<le> 0xCB0071FF) then ''Documentation''
      else if 0xC6120000 \<le> b \<and> b \<le> 0xC613FFFF then ''Benchmarking''
      else if 0x64400000 \<le> b \<and> b \<le> 0x647FFFFF then ''Shared Address Space''
      else if (0x00000000 \<le> b \<and> b \<le> 0x00FFFFFF) \<or> (0xF0000000 \<le> b \<and> b \<le> 0xFFFFFFFE)
      then ''Reserved''
      else ''Public'')"

text \<open>Membership of an address, given as a number, in the block of a subnet: between the
  two ends that \<open>getIPRange\<close> returns (the network address and the broadcast address).\<close>

definition in_block :: "int \<Rightarrow> string \<Rightarrow> int \<Rightarrow> bool" where
  "in_block x subnet prefixLength =
     (case getIPRange subnet prefixLength of
        Inl e \<Rightarrow> False
      | Inr (firstIP, lastIP) \<Rightarrow>
          (case (parseIPv4 firstIP, parseIPv4 lastIP) of
             (Inr lo, Inr hi) \<Rightarrow> lo \<le> x \<and> x \<le> hi
           | _ \<Rightarrow> False))"

section \<open>Properties\<close>

subsection \<open>The unsigned right shift\<close>

lemma js_ushr_range: "0 \<le> js_ushr a k \<and> js_ushr a k < 4294967296"
proof -
  have "uint (drop_bit (nat (k mod 32)) (word_of_int a :: 32 word)) < 2 ^ LENGTH(32)"
    by (rule uint_lt2p)
  then show ?thesis
    by (simp add: js_ushr_def)
qed

lemma setOctet_range: "setOctet ip pos v = Inr r \<Longrightarrow> 0 \<le> r \<and> r < 4294967296"
  by (auto simp: setOctet_def Let_def js_ushr_range split: if_splits)

lemma createMask_range: "createMask n = Inr m \<Longrightarrow> 0 \<le> m \<and> m < 4294967296"
  by (auto simp: createMask_def js_ushr_range split: if_splits sum.splits)

subsection \<open>Bitflag results are unsigned\<close>

text \<open>
  C10. Every exported operation that produces a bitflag (\<open>setOctet\<close>, \<open>octetsToBitflag\<close>,
  \<open>createMask\<close>, \<open>invertMaskBits\<close>, \<open>applyMask\<close> and \<open>combineMasks\<close> of \<open>mask.ts\<close>)
  returns an integer between 0 and \<open>2 ^ 32 - 1\<close> whenever it does not raise: each ends in
  \<open>>>> 0\<close>, so a result is never the negative number that the signed bitwise operators
  give in between.
\<close>

theorem unsigned_closure:
  "(setOctet ip pos v = Inr r \<longrightarrow> 0 \<le> r \<and> r < 2 ^ 32)
   \<and> (0 \<le> octetsToBitflag octets \<and> octetsToBitflag octets < 2 ^ 32)
   \<and> (createMask n = Inr m \<longrightarrow> 0 \<le> m \<and> m < 2 ^ 32)
   \<and> (0 \<le> invertMaskBits msk \<and> invertMaskBits msk < 2 ^ 32)
   \<and> (0 \<le> mask_applyMask ip2 msk2 \<and> mask_applyMask ip2 msk2 < 2 ^ 32)
   \<and> (0 \<le> combineMasks mask1 mask2 \<and> combineMasks mask1 mask2 < 2 ^ 32)"
  using setOctet_range [of ip pos v r] createMask_range [of n m]
  by (simp add: octetsToBitflag_def invertMaskBits_def mask_applyMask_def combineMasks_def
      js_ushr_range)

theorem unsigned_closure_witness:
  "setOctet 0xFFFFFFFF 0 255 = Inr 0xFFFFFFFF \<and> createMask 32 = Inr 0xFFFFFFFF
   \<and> (0 \<le> (0xFFFFFFFF :: int) \<and> (0xFFFFFFFF :: int) < 2 ^ 32)
   \<and> (0 \<le> octetsToBitflag [Some (- 1), Some 0, Some 0, Some 0]
        \<and> octetsToBitflag [Some (- 1), Some 0, Some 0, Some 0] < 2 ^ 32)
   \<and> (0 \<le> invertMaskBits 0 \<and> invertMaskBits 0 < 2 ^ 32)
   \<and> (0 \<le> mask_applyMask (- 1) (- 1) \<and> mask_applyMask (- 1) (- 1) < 2 ^ 32)
   \<and> (0 \<le> combineMasks (- 1) (- 1) \<and> combineMasks (- 1) (- 1) < 2 ^ 32)"
proof -
  have a: "setOctet 0xFFFFFFFF 0 255 = Inr 0xFFFFFFFF" by code_simp
  have b: "createMask 32 = Inr 0xFFFFFFFF" by code_simp
  from unsigned_closure [of "0xFFFFFFFF" 0 255 "0xFFFFFFFF" "[Some (- 1), Some 0, Some 0, Some 0]"
      32 "0xFFFFFFFF" 0 "- 1" "- 1" "- 1" "- 1"] a b
  show ?thesis by simp
qed

subsection \<open>Unchecked composition of octets\<close>

text \<open>
  C9. The claim is that \<open>octetsToBitflag\<close> raises an error when its input does not have
  exactly 4 components or a component lies outside 0 to 255. The function has no check:
  on such inputs it returns a bitflag. An octet of 256 in the last position spills into
  the third octet (the result is 0.0.1.0), \<open>-1\<close> in the first becomes 255, a missing
  fourth octet counts as 0 and a fifth one is ignored. The tests of the module expect each of these calls to throw.
\<close>

theorem octetsToBitflag_unchecked:
  "octetsToBitflag [Some 0, Some 0, Some 0, Some 256] = 256
   \<and> octetsToBitflag [Some (- 1), Some 0, Some 0, Some 0] = 0xFF000000
   \<and> octetsToBitflag [Some 192, Some 168, Some 1] = 0xC0A80100
   \<and> octetsToBitflag [Some 192, Some 168, Some 1, Some 1, Some 0] = 0xC0A80101"
  by code_simp

subsection \<open>Address arithmetic at the ends of the address space\<close>

text \<open>
  C2. The claim is that \<open>incrementIP\<close> and \<open>decrementIP\<close> raise a range error whenever the
  address plus (minus) the amount leaves 0 to \<open>2 ^ 32 - 1\<close>. \<open>incrementIP\<close> reduces the sum
  with \<open>>>> 0\<close> before it compares it with \<open>0xFFFFFFFF\<close>, so its check never fires and the
  result wraps around; \<open>decrementIP\<close> compares the address with the amount, which catches
  an underflow but not the overflow by a negative amount.
\<close>

theorem incrementIP_wraps:
  "incrementIP ''255.255.255.255'' 1 = Inr ''0.0.0.0''
   \<and> incrementIP ''0.0.0.0'' (- 1) = Inr ''255.255.255.255''
   \<and> decrementIP ''255.255.255.255'' (- 1) = Inr ''0.0.0.0''"
  by code_simp

subsection \<open>The character check of the validator\<close>

text \<open>
  C5. The claim is that \<open>validateIPv4\<close> rejects, with a reason containing
  \<open>Invalid character\<close>, every string with a character other than a digit or a dot.
  \<open>isValidChar\<close> tests bit \<open>charCode\<close> of the mask with \<open>1 << charCode\<close>, and a shift count
  is taken modulo 32: the letter \<open>x\<close> (code 120) is tested on bit 24, the bit of the digit
  \<open>8\<close>, and passes. The string \<open>1.2.3.x\<close> is then rejected as an invalid octet, and
  \<open>1.2.3.4x\<close> is accepted, since \<open>parseInt\<close> stops at the letter.
\<close>

theorem validateIPv4_accepts_letters:
  "isValidChar (of_char CHR ''x'') VALID_IPV4_CHARS
   \<and> validateIPv4 ''1.2.3.x'' = \<lparr>isValid = False, reason = Some ''Invalid octet: x''\<rparr>
   \<and> validateIPv4 ''1.2.3.4x'' = \<lparr>isValid = True, reason = None\<rparr>"
  by code_simp

subsection \<open>Masks and prefix lengths\<close>

lemma countLeadingOnes_loop_range:
  "0 \<le> count \<Longrightarrow> count \<le> 32 \<Longrightarrow>
   0 \<le> countLeadingOnes_loop n count \<and> countLeadingOnes_loop n count \<le> 32"
proof (induction n count rule: countLeadingOnes_loop.induct)
  case (1 n count)
  show ?case
  proof (cases "js_and n 0x80000000 = 0 \<and> count < 32")
    case True
    with "1.IH" "1.prems" show ?thesis
      by (subst (1 2) countLeadingOnes_loop.simps) simp
  next
    case False
    with "1.prems" show ?thesis
      by (subst (1 2) countLeadingOnes_loop.simps) auto
  qed
qed

lemma createMask_table:
  "\<forall>n \<in> set [0..32]. createMask n = Inr (2 ^ 32 - 2 ^ nat (32 - n))"
  by code_simp

lemma getMaskPrefix_createMask_table:
  "\<forall>n \<in> set [0..32]. getMaskPrefix (2 ^ 32 - 2 ^ nat (32 - n)) = Inr n"
  by code_simp

lemma createMask_contiguous:
  assumes "0 \<le> n" "n \<le> 32"
  shows "createMask n = Inr (2 ^ 32 - 2 ^ nat (32 - n))" "contiguous_mask (2 ^ 32 - 2 ^ nat (32 - n))"
proof -
  from assms have "n \<in> set [0..32]" by simp
  with createMask_table show "createMask n = Inr (2 ^ 32 - 2 ^ nat (32 - n))" by blast
  from assms have "nat (32 - n) \<in> set [0..<33]" by auto
  then show "contiguous_mask (2 ^ 32 - 2 ^ nat (32 - n))"
    unfolding contiguous_mask_def list_ex_iff by blast
qed

lemma js_ushr_0_id: "0 \<le> v \<Longrightarrow> v < 4294967296 \<Longrightarrow> js_ushr v 0 = v"
  by (simp add: js_ushr_def uint_word_of_int take_bit_eq_mod)

text \<open>
  C6. \<open>createMask\<close> and \<open>getMaskPrefix\<close> are mutual inverses over contiguous masks: for
  every \<open>n\<close> from 0 to 32, \<open>getMaskPrefix (createMask n) = n\<close>; and for every 32-bit value
  that is not \<open>n\<close> leading ones followed by zeros (such as \<open>0xFFFF00FF\<close>),
  \<open>getMaskPrefix\<close> raises the invalid-mask error, which it detects by building the mask of
  the counted prefix again and comparing.
\<close>

theorem mask_prefix_inverse:
  "(0 \<le> n \<and> n \<le> 32 \<longrightarrow> (\<exists>m. createMask n = Inr m \<and> getMaskPrefix m = Inr n))
   \<and> (0 \<le> v \<and> v < 2 ^ 32 \<and> \<not> contiguous_mask v
        \<longrightarrow> getMaskPrefix v = Inl (IPv4ValidationError ''Invalid subnet mask''))"
proof (intro conjI impI)
  assume n: "0 \<le> n \<and> n \<le> 32"
  then have mem: "n \<in> set [0..32]" by simp
  from n have "createMask n = Inr (2 ^ 32 - 2 ^ nat (32 - n))"
    by (simp add: createMask_contiguous)
  moreover from mem getMaskPrefix_createMask_table
  have "getMaskPrefix (2 ^ 32 - 2 ^ nat (32 - n)) = Inr n" by blast
  ultimately show "\<exists>m. createMask n = Inr m \<and> getMaskPrefix m = Inr n" by blast
next
  assume v: "0 \<le> v \<and> v < 2 ^ 32 \<and> \<not> contiguous_mask v"
  define p where "p = countLeadingOnes v"
  have p: "0 \<le> p" "p \<le> 32"
    using countLeadingOnes_loop_range [of 0 "js_not v"] by (simp_all add: p_def countLeadingOnes_def)
  define m :: int where "m = 2 ^ 32 - 2 ^ nat (32 - p)"
  have cm: "createMask p = Inr m" and cont: "contiguous_mask m"
    unfolding m_def by (rule createMask_contiguous [OF p])+
  from cm have mr: "0 \<le> m" "m < 4294967296"
    using createMask_range [of p m] by simp_all
  from v cont have "v \<noteq> m" by auto
  with v mr have "js_ushr v 0 \<noteq> js_ushr m 0"
    by (simp add: js_ushr_0_id)
  with cm show "getMaskPrefix v = Inl (IPv4ValidationError ''Invalid subnet mask'')"
    by (simp add: getMaskPrefix_def Let_def p_def)
qed

theorem mask_prefix_inverse_witness:
  "(0 \<le> (24 :: int) \<and> (24 :: int) \<le> 32) \<and> createMask 24 = Inr 0xFFFFFF00 \<and> getMaskPrefix 0xFFFFFF00 = Inr 24
   \<and> (0 \<le> (0xFFFF00FF :: int) \<and> (0xFFFF00FF :: int) < 2 ^ 32 \<and> \<not> contiguous_mask 0xFFFF00FF)
   \<and> getMaskPrefix 0xFFFF00FF = Inl (IPv4ValidationError ''Invalid subnet mask'')"
proof -
  have nc: "\<not> contiguous_mask 0xFFFF00FF" by code_simp
  have cm: "createMask 24 = Inr 0xFFFFFF00" by code_simp
  from mask_prefix_inverse [of 24 "0xFFFF00FF"] nc cm show ?thesis by auto
qed

subsection \<open>Decimal numerals and splitting\<close>

lemma is_digit_digit_char: "d < 10 \<Longrightarrow> is_digit (digit_char d)"
  by (simp add: is_digit_def digit_char_def)

lemma digit_val_digit_char: "d < 10 \<Longrightarrow> digit_val (digit_char d) = d"
  by (simp add: digit_val_def digit_char_def)

lemma digit_char_digit_val: "is_digit c \<Longrightarrow> digit_char (digit_val c) = c"
  by (simp add: digit_val_def digit_char_def is_digit_def)

lemma digit_val_less: "is_digit c \<Longrightarrow> digit_val c < 10"
  by (auto simp: digit_val_def is_digit_def)

lemma digit_val_zero: "is_digit c \<Longrightarrow> digit_val c = 0 \<longleftrightarrow> c = CHR ''0''"
proof -
  assume c: "is_digit c"
  have "digit_val c = 0 \<longleftrightarrow> (of_char c :: nat) = of_char CHR ''0''"
    using c by (auto simp: digit_val_def is_digit_def)
  then show ?thesis by (simp del: of_char_Char)
qed

lemma dec_value_snoc: "dec_value (xs @ [c]) = dec_value xs * 10 + digit_val c"
  by (simp add: dec_value_def)

lemma digits_of_all_digits: "list_all is_digit (digits_of n)"
proof (induction n rule: digits_of.induct)
  case (1 n)
  then show ?case
    by (subst digits_of.simps) (simp add: is_digit_digit_char)
qed

lemma digits_of_nonempty: "digits_of n \<noteq> []"
  by (subst digits_of.simps) simp

lemma dec_value_digits_of: "dec_value (digits_of n) = n"
proof (induction n rule: digits_of.induct)
  case (1 n)
  show ?case
  proof (cases "n < 10")
    case True
    then show ?thesis
      by (subst digits_of.simps) (simp add: dec_value_def digit_val_digit_char)
  next
    case False
    with 1 show ?thesis
      by (subst digits_of.simps) (simp add: dec_value_snoc digit_val_digit_char)
  qed
qed

lemma hd_digits_of: "0 < n \<Longrightarrow> hd (digits_of n) \<noteq> CHR ''0''"
proof (induction n rule: digits_of.induct)
  case (1 n)
  show ?case
  proof (cases "n < 10")
    case True
    with "1.prems" have "digit_val (digit_char n) \<noteq> 0"
      by (simp add: digit_val_digit_char)
    with True have "digit_char n \<noteq> CHR ''0''"
      using digit_val_zero [of "digit_char n"] by (auto simp: is_digit_digit_char)
    with True show ?thesis
      by (subst digits_of.simps) simp
  next
    case False
    then have "0 < n div 10" by simp
    with False "1.IH" have "hd (digits_of (n div 10)) \<noteq> CHR ''0''" by simp
    with False show ?thesis
      by (subst digits_of.simps) (simp add: digits_of_nonempty)
  qed
qed

lemma length_digits_of: "1 < length (digits_of n) \<longleftrightarrow> 10 \<le> n"
proof (cases "n < 10")
  case True
  then show ?thesis by (subst digits_of.simps) simp
next
  case False
  have "0 < length (digits_of (n div 10))"
    using digits_of_nonempty by simp
  with False show ?thesis by (subst digits_of.simps) simp
qed

lemma canonical_octet_digits_of: "n \<le> 255 \<Longrightarrow> canonical_octet (digits_of n)"
proof -
  assume n: "n \<le> 255"
  have "1 < length (digits_of n) \<longrightarrow> hd (digits_of n) \<noteq> CHR ''0''"
    using hd_digits_of [of n] length_digits_of [of n] by auto
  with n show ?thesis
    by (simp add: canonical_octet_def digits_of_nonempty digits_of_all_digits dec_value_digits_of)
qed

lemma dec_value_pos:
  "xs \<noteq> [] \<Longrightarrow> list_all is_digit xs \<Longrightarrow> hd xs \<noteq> CHR ''0'' \<Longrightarrow> 0 < dec_value xs"
proof (induction xs rule: rev_induct)
  case Nil
  then show ?case by simp
next
  case (snoc c ys)
  show ?case
  proof (cases "ys = []")
    case True
    with snoc.prems show ?thesis
      using digit_val_zero [of c] by (simp add: dec_value_def)
  next
    case False
    with snoc have "0 < dec_value ys" by simp
    then show ?thesis by (simp add: dec_value_snoc)
  qed
qed

lemma digits_of_dec_value:
  "t \<noteq> [] \<Longrightarrow> list_all is_digit t \<Longrightarrow> (1 < length t \<longrightarrow> hd t \<noteq> CHR ''0'')
   \<Longrightarrow> digits_of (dec_value t) = t"
proof (induction t rule: rev_induct)
  case Nil
  then show ?case by simp
next
  case (snoc c ys)
  from snoc.prems have c: "is_digit c" by simp
  show ?case
  proof (cases "ys = []")
    case True
    with c show ?thesis
      by (subst digits_of.simps) (simp add: dec_value_def digit_val_less digit_char_digit_val)
  next
    case False
    with snoc.prems have hd: "hd ys \<noteq> CHR ''0''" and dig: "list_all is_digit ys" by simp_all
    with False have pos: "0 < dec_value ys" by (simp add: dec_value_pos)
    from False hd dig snoc.IH have ih: "digits_of (dec_value ys) = ys" by simp
    have lt: "digit_val c < 10" using c by (rule digit_val_less)
    from pos have ge: "\<not> dec_value ys * 10 + digit_val c < 10" by simp
    from lt have dv: "(dec_value ys * 10 + digit_val c) div 10 = dec_value ys"
      and md: "(dec_value ys * 10 + digit_val c) mod 10 = digit_val c" by simp_all
    have "digits_of (dec_value ys * 10 + digit_val c) = ys @ [c]"
      by (subst digits_of.simps) (simp only: ge dv md ih digit_char_digit_val [OF c] if_False)
    then show ?thesis by (simp only: dec_value_snoc)
  qed
qed

lemma js_split_nonempty: "js_split sep s \<noteq> []"
  by (induction s) (auto split: list.splits)

lemma js_split_no_sep: "sep \<notin> set x \<Longrightarrow> js_split sep x = [x]"
  by (induction x) auto

lemma js_split_append:
  "sep \<notin> set x \<Longrightarrow> js_split sep (x @ sep # rest) = x # js_split sep rest"
  by (induction x) auto

lemma dot_not_digit: "list_all is_digit t \<Longrightarrow> CHR ''.'' \<notin> set t"
  by (auto simp: list_all_iff is_digit_def)

lemma js_split_dotted:
  assumes "list_all is_digit a" "list_all is_digit b" "list_all is_digit c" "list_all is_digit d"
  shows "js_split CHR ''.'' (dotted a b c d) = [a, b, c, d]"
  using assms by (simp add: dotted_def js_split_append js_split_no_sep dot_not_digit)

lemma parseInt_digits:
  assumes "t \<noteq> []" "list_all is_digit t"
  shows "parseInt t = Some (int (dec_value t))"
proof -
  from assms obtain c r where t: "t = c # r" by (cases t) auto
  with assms have c: "is_digit c" by simp
  then have nw: "\<not> js_whitespace c" by (auto simp: js_whitespace_def is_digit_def)
  from c have ns: "c \<noteq> CHR ''-''" "c \<noteq> CHR ''+''" by (auto simp: is_digit_def)
  from assms have tw: "takeWhile is_digit t = t" by (simp add: list_all_iff)
  from t nw have dw: "dropWhile js_whitespace t = t" by simp
  show ?thesis
    unfolding parseInt_def dw Let_def using ns assms(1) tw by (simp add: t)
qed

lemma js_Number_digits: "list_all is_digit t \<Longrightarrow> js_Number t = Some (int (dec_value t))"
  by (simp add: js_Number_def)

subsection \<open>Octets of a bitflag\<close>

lemma byte_mask: "(255 :: 32 word) = mask 8"
  by (simp add: mask_eq_exp_minus_1)

lemma sint_low_byte: "sint (x AND 255 :: 32 word) = uint (x AND 255)"
  unfolding byte_mask by (rule bit_eqI) (auto simp: bit_simps dest: bit_imp_le_length)

lemma bitflagToOctets_word:
  "bitflagToOctets n =
     [uint (drop_bit 24 (word_of_int n :: 32 word) AND 255),
      uint (drop_bit 16 (word_of_int n :: 32 word) AND 255),
      uint (drop_bit 8 (word_of_int n :: 32 word) AND 255),
      uint ((word_of_int n :: 32 word) AND 255)]"
  by (simp add: bitflagToOctets_def js_and_def js_ushr_def sint_low_byte)

lemma octetsToBitflag_word:
  "octetsToBitflag [Some a, Some b, Some c, Some d] =
     uint (((push_bit 24 (word_of_int a) OR push_bit 16 (word_of_int b)) OR push_bit 8 (word_of_int c))
             OR (word_of_int d :: 32 word))"
  by (simp add: octetsToBitflag_def js_index_def operand_def js_ushr_def js_or_def js_shl_def)

lemma octets_recombine:
  "((push_bit 24 (drop_bit 24 w AND 255) OR push_bit 16 (drop_bit 16 w AND 255))
     OR push_bit 8 (drop_bit 8 w AND 255)) OR (w AND 255) = (w :: 32 word)"
  unfolding byte_mask
proof (rule bit_word_eqI)
  fix n :: nat
  assume "n < LENGTH(32)"
  then consider "n < 8" | "8 \<le> n" "n < 16" | "16 \<le> n" "n < 24" | "24 \<le> n" "n < 32"
    by fastforce
  then show "bit (((push_bit 24 (drop_bit 24 w AND mask 8) OR push_bit 16 (drop_bit 16 w AND mask 8))
      OR push_bit 8 (drop_bit 8 w AND mask 8)) OR (w AND mask 8)) n = bit w n"
    by cases (auto simp: bit_simps)
qed

lemma octets_extract:
  fixes a b c d :: "8 word"
  defines "W \<equiv> ((push_bit 24 (ucast a) OR push_bit 16 (ucast b)) OR push_bit 8 (ucast c)) OR (ucast d :: 32 word)"
  shows "drop_bit 24 W AND 255 = ucast a" "drop_bit 16 W AND 255 = ucast b"
    "drop_bit 8 W AND 255 = ucast c" "W AND 255 = ucast d"
proof -
  show "drop_bit 24 W AND 255 = ucast a"
    unfolding byte_mask W_def by (rule bit_word_eqI) (auto simp: bit_simps dest: bit_imp_le_length)
  show "drop_bit 16 W AND 255 = ucast b"
    unfolding byte_mask W_def by (rule bit_word_eqI) (auto simp: bit_simps dest: bit_imp_le_length)
  show "drop_bit 8 W AND 255 = ucast c"
    unfolding byte_mask W_def by (rule bit_word_eqI) (auto simp: bit_simps dest: bit_imp_le_length)
  show "W AND 255 = ucast d"
    unfolding byte_mask W_def by (rule bit_word_eqI) (auto simp: bit_simps dest: bit_imp_le_length)
qed

lemma word_of_octet:
  assumes "0 \<le> a" "a \<le> 255"
  shows "(word_of_int a :: 32 word) = ucast (word_of_int a :: 8 word)"
    and "uint (ucast (word_of_int a :: 8 word) :: 32 word) = a"
proof -
  from assms have t: "take_bit 8 a = a" "take_bit 32 a = a" by (simp_all add: take_bit_eq_mod)
  show "uint (ucast (word_of_int a :: 8 word) :: 32 word) = a"
    by (simp add: unsigned_ucast_eq uint_word_of_int_eq t)
  then show "(word_of_int a :: 32 word) = ucast (word_of_int a :: 8 word)"
    by (metis word_of_int_uint)
qed

subsection \<open>Parsing and formatting\<close>

lemma isValidChar_digit_or_dot:
  assumes "is_digit c \<or> c = CHR ''.''"
  shows "isValidChar (of_char c) VALID_IPV4_CHARS"
proof -
  have r: "x \<in> {46, 48, 49, 50, 51, 52, 53, 54, 55, 56, 57}" if "48 \<le> x" "x \<le> 57" for x :: nat
    using that by simp arith
  have "(of_char c :: nat) \<in> {46, 48, 49, 50, 51, 52, 53, 54, 55, 56, 57}"
  proof (cases "c = CHR ''.''")
    case True
    then show ?thesis by simp
  next
    case False
    with assms have "48 \<le> (of_char c :: nat)" "(of_char c :: nat) \<le> 57"
      by (simp_all add: is_digit_def)
    then show ?thesis by (rule r)
  qed
  moreover have "(of_char c :: int) = int (of_char c)"
    by (simp only: of_nat_of_char)
  ultimately have "(of_char c :: int) \<in> {46, 48, 49, 50, 51, 52, 53, 54, 55, 56, 57}"
    by auto
  then show ?thesis
    by (auto simp: isValidChar_def VALID_IPV4_CHARS_def js_and_def js_shl_def)
qed

lemma check_chars_ok: "\<forall>c \<in> set s. is_digit c \<or> c = CHR ''.'' \<Longrightarrow> check_chars s = None"
  by (induction s) (simp_all add: isValidChar_digit_or_dot)

lemma check_chars_dotted:
  assumes "list_all is_digit a" "list_all is_digit b" "list_all is_digit c" "list_all is_digit d"
  shows "check_chars (dotted a b c d) = None"
  using assms by (intro check_chars_ok) (auto simp: dotted_def list_all_iff)

lemma check_octets_canonical: "list_all canonical_octet ts \<Longrightarrow> check_octets ts = valid"
proof (induction ts)
  case Nil
  then show ?case by simp
next
  case (Cons t ts)
  then have t: "canonical_octet t" by simp
  then have p: "parseInt t = Some (int (dec_value t))"
    by (simp add: canonical_octet_def parseInt_digits)
  from t Cons show ?case
    by (auto simp: p canonical_octet_def IPV4_MAX_OCTET_VALUE_def)
qed

lemma validateIPv4_dotted:
  assumes "canonical_octet a" "canonical_octet b" "canonical_octet c" "canonical_octet d"
  shows "validateIPv4 (dotted a b c d) = valid"
proof -
  from assms have dig: "list_all is_digit a" "list_all is_digit b" "list_all is_digit c" "list_all is_digit d"
    by (simp_all add: canonical_octet_def)
  from assms have "check_octets [a, b, c, d] = valid"
    by (intro check_octets_canonical) simp
  then show ?thesis
    by (simp add: validateIPv4_def check_chars_dotted [OF dig] js_split_dotted [OF dig] IPV4_OCTET_COUNT_def)
qed

lemma parseIPv4_dotted:
  assumes "canonical_octet a" "canonical_octet b" "canonical_octet c" "canonical_octet d"
  shows "parseIPv4 (dotted a b c d) =
    Inr (octetsToBitflag [Some (int (dec_value a)), Some (int (dec_value b)), Some (int (dec_value c)), Some (int (dec_value d))])"
proof -
  from assms have dig: "list_all is_digit a" "list_all is_digit b" "list_all is_digit c" "list_all is_digit d"
    and ne: "a \<noteq> []" "b \<noteq> []" "c \<noteq> []" "d \<noteq> []"
    by (simp_all add: canonical_octet_def)
  show ?thesis
    by (simp add: parseIPv4_def validateIPv4_dotted [OF assms] valid_def js_split_dotted [OF dig]
        parseInt_digits ne dig)
qed

lemma ipToBitflag_dotted:
  assumes dig: "list_all is_digit a" "list_all is_digit b" "list_all is_digit c" "list_all is_digit d"
  shows "ipToBitflag (dotted a b c d) =
    octetsToBitflag [Some (int (dec_value a)), Some (int (dec_value b)), Some (int (dec_value c)), Some (int (dec_value d))]"
  by (simp add: ipToBitflag_def js_split_dotted [OF dig] js_Number_digits dig)

lemma uint_low_byte: "0 \<le> uint (x AND 255 :: 32 word) \<and> uint (x AND 255 :: 32 word) \<le> 255"
proof -
  have "uint (x AND mask 8) = take_bit 8 (uint x)"
    by (simp add: unsigned_take_bit_eq flip: take_bit_eq_mask)
  moreover have "take_bit 8 (uint x) < 2 ^ 8" by (rule take_bit_int_less_exp)
  ultimately show ?thesis by (simp add: byte_mask)
qed

lemma formatIPv4_dotted:
  "formatIPv4 n = dotted (octet_text n 24) (octet_text n 16) (octet_text n 8) (octet_text n 0)"
  using uint_low_byte
  by (simp add: formatIPv4_def bitflagToOctets_word js_toString_def dotted_def octet_text_def)

lemma canonical_octet_text: "canonical_octet (octet_text n k)"
proof -
  have "nat (uint (drop_bit k (word_of_int n :: 32 word) AND 255)) \<le> 255"
    using uint_low_byte [of "drop_bit k (word_of_int n)"] by (simp add: nat_le_iff del: nat_uint_eq)
  then show ?thesis
    unfolding octet_text_def by (rule canonical_octet_digits_of)
qed

lemma dec_value_octet_text:
  "int (dec_value (octet_text n k)) = uint (drop_bit k (word_of_int n :: 32 word) AND 255)"
  by (simp add: octet_text_def dec_value_digits_of)

lemma octets_of_format:
  "octetsToBitflag [Some (int (dec_value (octet_text n 24))), Some (int (dec_value (octet_text n 16))),
      Some (int (dec_value (octet_text n 8))), Some (int (dec_value (octet_text n 0)))] = n mod 2 ^ 32"
  using octets_recombine [of "word_of_int n"]
  by (simp add: dec_value_octet_text octetsToBitflag_word uint_word_of_int)

lemma parseIPv4_formatIPv4: "parseIPv4 (formatIPv4 n) = Inr (n mod 2 ^ 32)"
  by (simp only: formatIPv4_dotted parseIPv4_dotted [OF canonical_octet_text canonical_octet_text canonical_octet_text canonical_octet_text]
      octets_of_format)

lemma ipToBitflag_formatIPv4: "ipToBitflag (formatIPv4 n) = n mod 2 ^ 32"
proof -
  have dig: "list_all is_digit (octet_text n k)" for k
    using canonical_octet_text [of n k] by (simp add: canonical_octet_def)
  show ?thesis
    by (simp only: formatIPv4_dotted ipToBitflag_dotted [OF dig dig dig dig] octets_of_format)
qed

lemma formatIPv4_octets:
  assumes "canonical_octet a" "canonical_octet b" "canonical_octet c" "canonical_octet d"
  shows "formatIPv4 (octetsToBitflag [Some (int (dec_value a)), Some (int (dec_value b)),
            Some (int (dec_value c)), Some (int (dec_value d))]) = dotted a b c d"
proof -
  have ot: "digits_of (nat (uint (ucast (word_of_int (int (dec_value t)) :: 8 word) :: 32 word))) = t"
    if "canonical_octet t" for t
  proof -
    from that have "int (dec_value t) \<le> 255" by (simp add: canonical_octet_def)
    then have "uint (ucast (word_of_int (int (dec_value t)) :: 8 word) :: 32 word) = int (dec_value t)"
      by (intro word_of_octet) simp_all
    with that show ?thesis
      by (simp add: canonical_octet_def digits_of_dec_value)
  qed
  have w: "(word_of_int (int (dec_value t)) :: 32 word) = ucast (word_of_int (int (dec_value t)) :: 8 word)"
    if "canonical_octet t" for t
    using that by (intro word_of_octet) (simp_all add: canonical_octet_def)
  show ?thesis
    unfolding formatIPv4_dotted octet_text_def octetsToBitflag_word
    by (simp only: w [OF assms(1)] w [OF assms(2)] w [OF assms(3)] w [OF assms(4)] word_of_int_uint
        octets_extract drop_bit_0 id_apply ot [OF assms(1)] ot [OF assms(2)] ot [OF assms(3)] ot [OF assms(4)])
qed

text \<open>
  C1. Round trip of the parser and the formatter. For every canonical dotted-decimal
  string \<open>s\<close> (four octets from 0 to 255 without leading zeros), \<open>parseIPv4 s\<close> returns a
  bitflag and \<open>formatIPv4\<close> of it is \<open>s\<close>; and for every integer \<open>n\<close> from 0 to
  \<open>2 ^ 32 - 1\<close>, \<open>parseIPv4 (formatIPv4 n)\<close> returns \<open>n\<close>. Neither call raises.
\<close>

theorem roundtrip:
  "(canonical_octet a \<and> canonical_octet b \<and> canonical_octet c \<and> canonical_octet d
      \<longrightarrow> (\<exists>n. parseIPv4 (dotted a b c d) = Inr n \<and> formatIPv4 n = dotted a b c d))
   \<and> (0 \<le> n \<and> n < 2 ^ 32 \<longrightarrow> parseIPv4 (formatIPv4 n) = Inr n)"
  by (simp add: parseIPv4_dotted formatIPv4_octets parseIPv4_formatIPv4)

theorem roundtrip_witness:
  "(canonical_octet ''192'' \<and> canonical_octet ''168'' \<and> canonical_octet ''1'' \<and> canonical_octet ''0'')
   \<and> parseIPv4 ''192.168.1.0'' = Inr 0xC0A80100 \<and> formatIPv4 0xC0A80100 = ''192.168.1.0''
   \<and> (0 \<le> (0xFFFFFFFF :: int) \<and> (0xFFFFFFFF :: int) < 2 ^ 32)
   \<and> parseIPv4 (formatIPv4 0xFFFFFFFF) = Inr 0xFFFFFFFF"
proof -
  have c: "canonical_octet ''192''" "canonical_octet ''168''" "canonical_octet ''1''" "canonical_octet ''0''"
    by code_simp+
  have d: "dotted ''192'' ''168'' ''1'' ''0'' = ''192.168.1.0''"
    by (simp add: dotted_def)
  have p: "parseIPv4 ''192.168.1.0'' = Inr 0xC0A80100"
    by code_simp
  from roundtrip [of "''192''" "''168''" "''1''" "''0''" "0xFFFFFFFF"] c d p
  show ?thesis by auto
qed

subsection \<open>Masking by a prefix\<close>

lemma applyMask_take_bit: "applyMask a m = (take_bit 32 a) AND (take_bit 32 m)"
  by (simp add: applyMask_def js_ushr_def js_and_def uint_and uint_word_of_int_eq)

lemma and_not_mask_int: "(a :: int) AND NOT (mask k) = a - a mod 2 ^ k"
proof -
  have "a AND NOT (mask k) = push_bit k (drop_bit k a)"
    by (rule bit_eqI) (auto simp: bit_simps)
  also have "\<dots> = a - a mod 2 ^ k"
    by (simp add: push_bit_eq_mult drop_bit_eq_div minus_mod_eq_div_mult)
  finally show ?thesis .
qed

lemma high_mask_take_bit: "k \<le> 32 \<Longrightarrow> (2 ^ 32 - 2 ^ k :: int) = take_bit 32 (NOT (mask k))"
proof -
  assume k: "k \<le> 32"
  then have le: "(2 :: int) ^ k \<le> 2 ^ 32" by (intro power_increasing) simp_all
  have "take_bit 32 (NOT (mask k) :: int) = (- (2 ^ k)) mod 2 ^ 32"
    by (simp only: take_bit_eq_mod minus_exp_eq_not_mask)
  also have "\<dots> = (2 ^ 32 - 2 ^ k) mod 2 ^ 32"
    by (metis diff_conv_add_uminus mod_add_self1)
  also from le have "\<dots> = 2 ^ 32 - 2 ^ k"
    by (intro mod_pos_pos_trivial) simp_all
  finally show ?thesis by (simp only:)
qed

lemma applyMask_prefix:
  assumes "0 \<le> a" "a < 2 ^ 32" "k \<le> 32"
  shows "applyMask a (2 ^ 32 - 2 ^ k) = a - a mod 2 ^ k"
proof -
  have p: "(0 :: int) < 2 ^ k" by simp
  then have "0 \<le> a mod 2 ^ k" "a mod 2 ^ k \<le> a"
    using assms(1) by (simp_all add: zmod_le_nonneg_dividend)
  with assms have r: "0 \<le> a - a mod 2 ^ k" "a - a mod 2 ^ k < 2 ^ 32"
    by linarith+
  have "applyMask a (2 ^ 32 - 2 ^ k) = take_bit 32 a AND take_bit 32 (NOT (mask k))"
    by (simp only: applyMask_take_bit high_mask_take_bit [OF assms(3)] take_bit_take_bit min.idem)
  also have "\<dots> = take_bit 32 (a - a mod 2 ^ k)"
    by (simp only: and_not_mask_int flip: take_bit_and)
  also from r have "\<dots> = a - a mod 2 ^ k"
    by (simp only: take_bit_eq_mod mod_pos_pos_trivial)
  finally show ?thesis .
qed

lemma prefix_match:
  assumes "0 \<le> a" "a < 2 ^ 32" "k \<le> 32" "c mod 2 ^ k = 0"
  shows "applyMask a (2 ^ 32 - 2 ^ k) = c \<longleftrightarrow> c \<le> a \<and> a < c + 2 ^ k"
proof -
  have p: "(0 :: int) < 2 ^ k" by simp
  have "a - a mod 2 ^ k = c \<longleftrightarrow> c \<le> a \<and> a < c + 2 ^ k"
  proof
    assume "a - a mod 2 ^ k = c"
    then have "a = c + a mod 2 ^ k" by simp
    moreover have "0 \<le> a mod 2 ^ k" "a mod 2 ^ k < 2 ^ k" using p by simp_all
    ultimately show "c \<le> a \<and> a < c + 2 ^ k" by linarith
  next
    assume h: "c \<le> a \<and> a < c + 2 ^ k"
    then have "0 \<le> a - c" "a - c < 2 ^ k" by simp_all
    then have "(a - c) mod 2 ^ k = a - c" by (rule mod_pos_pos_trivial)
    moreover have "(a - c) mod 2 ^ k = a mod 2 ^ k"
      using assms(4) by (metis mod_diff_right_eq diff_zero)
    ultimately show "a - a mod 2 ^ k = c" by simp
  qed
  with assms show ?thesis by (simp only: applyMask_prefix)
qed

lemma extractOctet_first:
  assumes "0 \<le> ip" "ip < 2 ^ 32"
  shows "extractOctet ip 0 = Inr (ip div 2 ^ 24)"
proof -
  have m: "(word_of_int (- 16777216) :: 32 word) = NOT (mask 24)"
    by (simp flip: minus_exp_eq_not_mask)
  have "drop_bit 24 ((word_of_int ip :: 32 word) AND NOT (mask 24)) = drop_bit 24 (word_of_int ip)"
    by (rule bit_word_eqI) (auto simp: bit_simps)
  moreover have "uint (drop_bit 24 (word_of_int ip :: 32 word)) = ip div 2 ^ 24"
  proof -
    from assms have t: "take_bit 32 ip = ip" by (simp add: take_bit_eq_mod)
    have "uint (drop_bit 24 (word_of_int ip :: 32 word)) = drop_bit 24 (take_bit LENGTH(32) (take_bit LENGTH(32) ip))"
      by (simp only: unsigned_drop_bit_eq uint_word_of_int_eq)
    also have "\<dots> = drop_bit 24 ip" using t by simp
    finally show ?thesis by (simp only: drop_bit_eq_div)
  qed
  ultimately have e: "uint (drop_bit 24 ((word_of_int ip :: 32 word) AND NOT (mask 24))) = ip div 2 ^ 24"
    by (simp only:)
  have s: "js_shl (js_shl 1 8 - 1) 24 = - 16777216"
    by (simp add: js_shl_def)
  have k: "nat (24 mod 32) = 24" by simp
  have "extractOctet ip 0 = Inr (js_ushr (js_and ip (- 16777216)) 24)"
    by (simp add: extractOctet_def extractBits_def s)
  also have "js_ushr (js_and ip (- 16777216)) 24
      = uint (drop_bit 24 ((word_of_int ip :: 32 word) AND NOT (mask 24)))"
    by (simp only: js_ushr_def js_and_def of_int_sint scast_id m k)
  finally show ?thesis by (simp only: e)
qed

subsection \<open>Multicast sub-types\<close>

lemma generateBitmask_values:
  "generateBitmask 4 = Inr 0xF0000000" "generateBitmask 8 = Inr 0xFF000000"
  "generateBitmask 10 = Inr 0xFFC00000" "generateBitmask 24 = Inr 0xFFFFFF00"
  by (simp_all add: generateBitmask_def MAX_32BIT_VALUE_def js_shl_def js_ushr_def)

lemma prefix4: "0 \<le> a \<Longrightarrow> a < 2 ^ 32 \<Longrightarrow> c mod 2 ^ 28 = 0 \<Longrightarrow>
    applyMask a 0xF0000000 = c \<longleftrightarrow> c \<le> a \<and> a < c + 2 ^ 28"
  using prefix_match [of a 28 c] by simp

lemma prefix8: "0 \<le> a \<Longrightarrow> a < 2 ^ 32 \<Longrightarrow> c mod 2 ^ 24 = 0 \<Longrightarrow>
    applyMask a 0xFF000000 = c \<longleftrightarrow> c \<le> a \<and> a < c + 2 ^ 24"
  using prefix_match [of a 24 c] by simp

lemma prefix10: "0 \<le> a \<Longrightarrow> a < 2 ^ 32 \<Longrightarrow> c mod 2 ^ 22 = 0 \<Longrightarrow>
    applyMask a 0xFFC00000 = c \<longleftrightarrow> c \<le> a \<and> a < c + 2 ^ 22"
  using prefix_match [of a 22 c] by simp

lemma prefix24: "0 \<le> a \<Longrightarrow> a < 2 ^ 32 \<Longrightarrow> c mod 2 ^ 8 = 0 \<Longrightarrow>
    applyMask a 0xFFFFFF00 = c \<longleftrightarrow> c \<le> a \<and> a < c + 2 ^ 8"
  using prefix_match [of a 8 c] by simp

lemma isMulticastIP_bitflag_range:
  "0 \<le> ip \<Longrightarrow> ip < 2 ^ 32 \<Longrightarrow>
   isMulticastIP_bitflag ip = Inr (0xE0000000 \<le> ip \<and> ip < 0xF0000000)"
  by (simp add: isMulticastIP_bitflag_def and_then_def generateBitmask_values prefix4)

lemma isReservedIP_bitflag_multicast:
  "0xE0000000 \<le> ip \<Longrightarrow> ip < 0xF0000000 \<Longrightarrow> isReservedIP_bitflag ip = Inr False"
  by (simp add: isReservedIP_bitflag_def and_then_def generateBitmask_values prefix4 prefix8 prefix10 prefix24)

text \<open>
  C4 (amended). For every bitflag in the multicast range 224.0.0.0/4, \<open>getMulticastType\<close>
  returns the sub-type determined by the first octet: 224 Well-Known; 225 Transient; 226
  to 231 Reserved; 232 to 235 Source-Specific; 236 to 237 GLOP; 238 Unicast-Prefix-based
  exactly when the address lies in 238.0.0.0/24 and Reserved otherwise; 239
  Administratively Scoped. For every other 32-bit address it returns \<open>Not Multicast\<close>.
  The claim as written has 225 to 231 Transient; the code and its tests have 226 to 231
  Reserved.
\<close>

theorem multicast_type:
  "0 \<le> ip \<and> ip < 2 ^ 32 \<longrightarrow> getMulticastType ip = Inr (multicast_subtype ip)"
proof
  assume r: "0 \<le> ip \<and> ip < 2 ^ 32"
  show "getMulticastType ip = Inr (multicast_subtype ip)"
  proof (cases "0xE0000000 \<le> ip \<and> ip < 0xF0000000")
    case False
    with r have "ip div 2 ^ 24 < 224 \<or> 239 < ip div 2 ^ 24" by simp arith
    with r False show ?thesis
      by (simp add: getMulticastType_def and_then_def isMulticastIP_bitflag_range multicast_subtype_def)
  next
    case True
    then have o: "224 \<le> ip div 2 ^ 24" "ip div 2 ^ 24 \<le> 239" by (simp_all, arith+)
    have u: "applyMask ip 0xFFFFFF00 = 0xEE000000 \<longleftrightarrow> ip div 2 ^ 8 = 0xEE0000"
      using r by (simp add: prefix24) arith
    from r True o show ?thesis
      by (simp add: getMulticastType_def and_then_def isMulticastIP_bitflag_range
          isReservedIP_bitflag_multicast extractOctet_first generateBitmask_values u
          multicast_subtype_def Let_def)
  qed
qed

theorem multicast_type_witness:
  "(0 \<le> (0xE2000000 :: int) \<and> (0xE2000000 :: int) < 2 ^ 32)
   \<and> getMulticastType 0xE2000000 = Inr ''Reserved''"
proof -
  have "multicast_subtype 0xE2000000 = ''Reserved''" by code_simp
  with multicast_type [of "0xE2000000"] show ?thesis by simp
qed

text \<open>
  C4 as written fails at 226.0.0.0: its first octet lies between 225 and 231, and the
  sub-type returned is not Transient.
\<close>

theorem transient_counterexample:
  "226 \<le> (0xE2000000 :: int) div 2 ^ 24 \<and> (0xE2000000 :: int) div 2 ^ 24 \<le> 231
   \<and> getMulticastType 0xE2000000 \<noteq> Inr ''Transient Multicast''"
  by code_simp

subsection \<open>The single-category classifier\<close>

lemma range_bounds:
  "ipToBitflag ''10.0.0.0'' = 0x0A000000" "ipToBitflag ''10.255.255.255'' = 0x0AFFFFFF"
  "ipToBitflag ''172.16.0.0'' = 0xAC100000" "ipToBitflag ''172.31.255.255'' = 0xAC1FFFFF"
  "ipToBitflag ''192.168.0.0'' = 0xC0A80000" "ipToBitflag ''192.168.255.255'' = 0xC0A8FFFF"
  "ipToBitflag ''127.0.0.0'' = 0x7F000000" "ipToBitflag ''127.255.255.255'' = 0x7FFFFFFF"
  "ipToBitflag ''169.254.0.0'' = 0xA9FE0000" "ipToBitflag ''169.254.255.255'' = 0xA9FEFFFF"
  "ipToBitflag ''224.0.0.0'' = 0xE0000000" "ipToBitflag ''239.255.255.255'' = 0xEFFFFFFF"
  "ipToBitflag ''192.0.2.0'' = 0xC0000200" "ipToBitflag ''192.0.2.255'' = 0xC00002FF"
  "ipToBitflag ''198.51.100.0'' = 0xC6336400" "ipToBitflag ''198.51.100.255'' = 0xC63364FF"
  "ipToBitflag ''203.0.113.0'' = 0xCB007100" "ipToBitflag ''203.0.113.255'' = 0xCB0071FF"
  "ipToBitflag ''198.18.0.0'' = 0xC6120000" "ipToBitflag ''198.19.255.255'' = 0xC613FFFF"
  "ipToBitflag ''100.64.0.0'' = 0x64400000" "ipToBitflag ''100.127.255.255'' = 0x647FFFFF"
  "ipToBitflag ''0.0.0.0'' = 0x00000000" "ipToBitflag ''0.255.255.255'' = 0x00FFFFFF"
  "ipToBitflag ''240.0.0.0'' = 0xF0000000" "ipToBitflag ''255.255.255.254'' = 0xFFFFFFFE"
  by code_simp+

lemma isIPInRange_formatIPv4:
  "0 \<le> b \<Longrightarrow> b < 2 ^ 32 \<Longrightarrow>
   isIPInRange (formatIPv4 b) startIP endIP = (ipToBitflag startIP \<le> b \<and> b \<le> ipToBitflag endIP)"
  by (simp add: isIPInRange_def ipToBitflag_formatIPv4)

lemma formatIPv4_broadcast:
  assumes "0 \<le> b" "b < 2 ^ 32"
  shows "formatIPv4 b = ''255.255.255.255'' \<longleftrightarrow> b = 0xFFFFFFFF"
proof
  assume "formatIPv4 b = ''255.255.255.255''"
  then have "ipToBitflag (formatIPv4 b) = ipToBitflag ''255.255.255.255''" by (simp only:)
  moreover have "ipToBitflag ''255.255.255.255'' = 0xFFFFFFFF" by code_simp
  ultimately show "b = 0xFFFFFFFF" using assms by (simp add: ipToBitflag_formatIPv4)
next
  assume "b = 0xFFFFFFFF"
  moreover have "formatIPv4 0xFFFFFFFF = ''255.255.255.255''" by code_simp
  ultimately show "formatIPv4 b = ''255.255.255.255''" by (simp only:)
qed

lemma getSpecialIPType_format:
  assumes "0 \<le> b" "b < 2 ^ 32"
  shows "getSpecialIPType (formatIPv4 b) = classify_by_precedence b"
proof -
  have p: "isPrivateIP (formatIPv4 b) \<longleftrightarrow> (0x0A000000 \<le> b \<and> b \<le> 0x0AFFFFFF) \<or> (0xAC100000 \<le> b \<and> b \<le> 0xAC1FFFFF)
          \<or> (0xC0A80000 \<le> b \<and> b \<le> 0xC0A8FFFF)"
    using assms by (simp add: isPrivateIP_def PRIVATE_RANGES_def isIPInRange_formatIPv4 range_bounds)
  have lo: "isLoopbackIP (formatIPv4 b) \<longleftrightarrow> 0x7F000000 \<le> b \<and> b \<le> 0x7FFFFFFF"
    using assms by (simp add: isLoopbackIP_def LOOPBACK_RANGE_def isIPInRange_formatIPv4 range_bounds)
  have ll: "isLinkLocalIP (formatIPv4 b) \<longleftrightarrow> 0xA9FE0000 \<le> b \<and> b \<le> 0xA9FEFFFF"
    using assms by (simp add: isLinkLocalIP_def LINK_LOCAL_RANGE_def isIPInRange_formatIPv4 range_bounds)
  have mc: "isMulticastIP (formatIPv4 b) \<longleftrightarrow> 0xE0000000 \<le> b \<and> b \<le> 0xEFFFFFFF"
    using assms by (simp add: isMulticastIP_def MULTICAST_RANGE_def isIPInRange_formatIPv4 range_bounds)
  have bc: "isBroadcastIP (formatIPv4 b) \<longleftrightarrow> b = 0xFFFFFFFF"
    using assms by (simp add: isBroadcastIP_def BROADCAST_IP_def formatIPv4_broadcast)
  have doc: "isDocumentationIP (formatIPv4 b) \<longleftrightarrow> (0xC0000200 \<le> b \<and> b \<le> 0xC00002FF) \<or> (0xC6336400 \<le> b \<and> b \<le> 0xC63364FF)
          \<or> (0xCB007100 \<le> b \<and> b \<le> 0xCB0071FF)"
    using assms by (simp add: isDocumentationIP_def DOCUMENTATION_RANGES_def isIPInRange_formatIPv4 range_bounds)
  have bm: "isBenchmarkingIP (formatIPv4 b) \<longleftrightarrow> 0xC6120000 \<le> b \<and> b \<le> 0xC613FFFF"
    using assms by (simp add: isBenchmarkingIP_def BENCHMARKING_RANGE_def isIPInRange_formatIPv4 range_bounds)
  have sh: "isSharedAddressSpaceIP (formatIPv4 b) \<longleftrightarrow> 0x64400000 \<le> b \<and> b \<le> 0x647FFFFF"
    using assms by (simp add: isSharedAddressSpaceIP_def SHARED_ADDRESS_SPACE_RANGE_def isIPInRange_formatIPv4 range_bounds)
  have rs: "isReservedIP (formatIPv4 b) \<longleftrightarrow> (0x00000000 \<le> b \<and> b \<le> 0x00FFFFFF) \<or> (0xF0000000 \<le> b \<and> b \<le> 0xFFFFFFFE)"
    using assms by (simp add: isReservedIP_def RESERVED_RANGES_def isIPInRange_formatIPv4 range_bounds)
  show ?thesis
    unfolding getSpecialIPType_def classify_by_precedence_def p lo ll mc bc doc bm sh rs
    by simp
qed

text \<open>
  C3 (amended). On every well-formed address \<open>getSpecialIPType\<close> returns the first
  matching tag in the precedence Private, Loopback, Link-local, Multicast, Broadcast,
  Documentation, Benchmarking, Shared Address Space, Reserved, and \<open>Public\<close> when none
  matches (the code tests Benchmarking and Shared Address Space before Documentation; the
  three ranges are disjoint, so the tag is the same). Every address of 0.0.0.0/8 and every
  address of 240.0.0.0/4 other than the broadcast address is Reserved; the documentation
  addresses are Documentation. The range 192.0.0.0/24 is not among the reserved ranges of
  \<open>special.ts\<close>: its addresses are Public.
\<close>

theorem special_type_precedence:
  "0 \<le> b \<and> b < 2 ^ 32 \<longrightarrow>
     getSpecialIPType (formatIPv4 b) = classify_by_precedence b
     \<and> ((b \<le> 0x00FFFFFF \<or> (0xF0000000 \<le> b \<and> b \<noteq> 0xFFFFFFFF))
          \<longrightarrow> getSpecialIPType (formatIPv4 b) = ''Reserved'')
     \<and> ((0xC0000200 \<le> b \<and> b \<le> 0xC00002FF) \<or> (0xC6336400 \<le> b \<and> b \<le> 0xC63364FF)
          \<or> (0xCB007100 \<le> b \<and> b \<le> 0xCB0071FF)
          \<longrightarrow> getSpecialIPType (formatIPv4 b) = ''Documentation'')
     \<and> (0xC0000000 \<le> b \<and> b \<le> 0xC00000FF \<longrightarrow> getSpecialIPType (formatIPv4 b) = ''Public'')"
  by (auto simp: getSpecialIPType_format classify_by_precedence_def)

theorem special_type_precedence_witness:
  "(0 \<le> (0xF0000001 :: int) \<and> (0xF0000001 :: int) < 2 ^ 32)
   \<and> getSpecialIPType (formatIPv4 0xF0000001) = ''Reserved''
   \<and> (0 \<le> (0xC0000201 :: int) \<and> (0xC0000201 :: int) < 2 ^ 32)
   \<and> getSpecialIPType (formatIPv4 0xC0000201) = ''Documentation''
   \<and> (0 \<le> (0xC00000FF :: int) \<and> (0xC00000FF :: int) < 2 ^ 32)
   \<and> getSpecialIPType (formatIPv4 0xC00000FF) = ''Public''"
  using special_type_precedence [of "0xF0000001"] special_type_precedence [of "0xC0000201"]
    special_type_precedence [of "0xC00000FF"]
  by (simp add: classify_by_precedence_def)

text \<open>
  C3 as written fails at 192.0.0.1: the address lies in 192.0.0.0/24 and matches no
  category, and it is classified Public, not Reserved.
\<close>

theorem reserved_counterexample:
  "parseIPv4 ''192.0.0.1'' = Inr 0xC0000001
   \<and> (0xC0000000 :: int) \<le> 0xC0000001 \<and> (0xC0000001 :: int) \<le> 0xC00000FF
   \<and> getSpecialIPType ''192.0.0.1'' = ''Public''
   \<and> getSpecialIPType ''192.0.0.1'' \<noteq> ''Reserved''"
  by code_simp

subsection \<open>Splitting a subnet\<close>

lemma splitSubnet_loop_eq:
  "0 \<le> i \<Longrightarrow> i \<le> num \<Longrightarrow>
   splitSubnet_loop n sz num i acc =
     Inr (acc @ map (\<lambda>j. formatIPv4 (js_ushr (n + int j * sz) 0)) [nat i..<nat num])"
proof (induction k \<equiv> "nat (num - i)" arbitrary: i acc)
  case 0
  then have "i = num" by simp
  then show ?case
    by (subst splitSubnet_loop.simps) simp
next
  case (Suc k)
  then have lt: "i < num" by linarith
  from Suc.hyps(2) have k: "k = nat (num - (i + 1))" by linarith
  from Suc.prems lt have r: "0 \<le> i + 1" "i + 1 \<le> num" by simp_all
  have le: "\<not> js_ushr (n + i * sz) 0 > 0xFFFFFFFF"
    using js_ushr_range [of "n + i * sz" 0] by simp
  from lt Suc.prems have upt: "[nat i..<nat num] = nat i # [nat (i + 1)..<nat num]"
    by (simp add: upt_conv_Cons nat_add_distrib)
  from Suc.prems have ii: "int (nat i) = i" by simp
  show ?case
    by (subst splitSubnet_loop.simps)
      (simp only: lt le if_True if_False Let_def Suc.hyps(1) [OF k r] upt list.map ii append_assoc append_Cons append_Nil)
qed

lemma octetsToBitflag_range: "0 \<le> octetsToBitflag os \<and> octetsToBitflag os < 4294967296"
  by (simp add: octetsToBitflag_def js_ushr_range)

lemma parseIPv4_range: "parseIPv4 s = Inr n \<Longrightarrow> 0 \<le> n \<and> n < 4294967296"
  using octetsToBitflag_range by (auto simp: parseIPv4_def Let_def split: if_splits)

text \<open>
  C7 (amended). \<open>splitSubnet network currentPrefix newPrefix\<close> fails whenever
  \<open>newPrefix \<le> currentPrefix\<close> or \<open>newPrefix > 32\<close>. Otherwise, when \<open>network\<close> is a
  well-formed address of value \<open>n\<close> and the last new subnet still starts inside the address
  space (\<open>n + (2 ^ (newPrefix - currentPrefix) - 1) * 2 ^ (32 - newPrefix) < 2 ^ 32\<close>, as it
  does when \<open>n\<close> is aligned to a non-negative \<open>currentPrefix\<close>), it returns exactly
  \<open>2 ^ (newPrefix - currentPrefix)\<close> addresses, the \<open>i\<close>-th being
  \<open>n + i * 2 ^ (32 - newPrefix)\<close>. What happens past the end of the address space is left
  open here.
\<close>

theorem splitSubnet_result:
  "(newP \<le> curP \<or> newP > 32 \<longrightarrow>
      splitSubnet s curP newP = Inl (IPv4SubnetError ''Invalid new prefix length for splitting''))
   \<and> (curP < newP \<and> newP \<le> 32 \<and> parseIPv4 s = Inr n
        \<and> n + (2 ^ nat (newP - curP) - 1) * 2 ^ nat (32 - newP) < 2 ^ 32 \<longrightarrow>
      splitSubnet s curP newP =
        Inr (map (\<lambda>i. formatIPv4 (n + int i * 2 ^ nat (32 - newP))) [0..<2 ^ nat (newP - curP)]))"
proof (intro conjI impI)
  assume "newP \<le> curP \<or> newP > 32"
  then show "splitSubnet s curP newP = Inl (IPv4SubnetError ''Invalid new prefix length for splitting'')"
    by (auto simp: splitSubnet_def IPV4_MAX_PREFIX_LENGTH_def)
next
  assume h: "curP < newP \<and> newP \<le> 32 \<and> parseIPv4 s = Inr n
        \<and> n + (2 ^ nat (newP - curP) - 1) * 2 ^ nat (32 - newP) < 2 ^ 32"
  define sz :: int where "sz = 2 ^ nat (32 - newP)"
  define cnt :: nat where "cnt = 2 ^ nat (newP - curP)"
  from h have n: "0 \<le> n" using parseIPv4_range [of s n] by simp
  have sz: "0 < sz" by (simp add: sz_def)
  from h have top: "n + (int cnt - 1) * sz < 2 ^ 32" by (simp add: sz_def cnt_def)
  have inr: "js_ushr (n + int j * sz) 0 = n + int j * sz" if "j < cnt" for j
  proof -
    from that have "int j \<le> int cnt - 1" by simp
    with sz have "int j * sz \<le> (int cnt - 1) * sz" by (simp add: mult_right_mono)
    with top have "n + int j * sz < 2 ^ 32" by linarith
    moreover from n sz have "0 \<le> n + int j * sz" by simp
    ultimately show ?thesis by (simp add: js_ushr_0_id)
  qed
  have "splitSubnet_loop n sz (int cnt) 0 [] =
      Inr ([] @ map (\<lambda>j. formatIPv4 (js_ushr (n + int j * sz) 0)) [nat 0..<nat (int cnt)])"
    by (rule splitSubnet_loop_eq) simp_all
  also have "\<dots> = Inr (map (\<lambda>j. formatIPv4 (n + int j * sz)) [0..<cnt])"
    by (simp add: inr)
  finally have "splitSubnet_loop n sz (int cnt) 0 [] = Inr (map (\<lambda>j. formatIPv4 (n + int j * sz)) [0..<cnt])" .
  with h show "splitSubnet s curP newP =
        Inr (map (\<lambda>i. formatIPv4 (n + int i * 2 ^ nat (32 - newP))) [0..<2 ^ nat (newP - curP)])"
    by (simp add: splitSubnet_def IPV4_MAX_PREFIX_LENGTH_def and_then_def sz_def cnt_def)
qed

theorem splitSubnet_result_witness:
  "((23 :: int) \<le> 24 \<or> (23 :: int) > 32)
   \<and> splitSubnet ''192.168.1.0'' 24 23 = Inl (IPv4SubnetError ''Invalid new prefix length for splitting'')
   \<and> ((24 :: int) < 26 \<and> (26 :: int) \<le> 32 \<and> parseIPv4 ''192.168.1.0'' = Inr 0xC0A80100
        \<and> 0xC0A80100 + (2 ^ nat (26 - 24) - 1) * 2 ^ nat (32 - 26) < (2 ^ 32 :: int))
   \<and> splitSubnet ''192.168.1.0'' 24 26 = Inr [''192.168.1.0'', ''192.168.1.64'', ''192.168.1.128'', ''192.168.1.192'']"
proof -
  have p: "parseIPv4 ''192.168.1.0'' = Inr 0xC0A80100" by code_simp
  have m: "map (\<lambda>i. formatIPv4 (0xC0A80100 + int i * 2 ^ nat (32 - 26))) [0..<2 ^ nat (26 - 24)]
      = [''192.168.1.0'', ''192.168.1.64'', ''192.168.1.128'', ''192.168.1.192'']"
    by code_simp
  from splitSubnet_result [of 23 24 "''192.168.1.0''" "0xC0A80100"]
  have a: "splitSubnet ''192.168.1.0'' 24 23 = Inl (IPv4SubnetError ''Invalid new prefix length for splitting'')"
    by simp
  from splitSubnet_result [of 26 24 "''192.168.1.0''" "0xC0A80100"] p
  have "splitSubnet ''192.168.1.0'' 24 26 =
      Inr (map (\<lambda>i. formatIPv4 (0xC0A80100 + int i * 2 ^ nat (32 - 26))) [0..<2 ^ nat (26 - 24)])"
    by simp
  with m have b: "splitSubnet ''192.168.1.0'' 24 26 = Inr [''192.168.1.0'', ''192.168.1.64'', ''192.168.1.128'', ''192.168.1.192'']"
    by (simp only:)
  from a b p show ?thesis by simp
qed

text \<open>
  C7 as written fails at \<open>splitSubnet "128.0.0.0" 0 1\<close>: the prefixes pass the guard, and
  the second address returned is 0.0.0.0, which is not \<open>network + 2 ^ 31\<close>.
\<close>

theorem splitSubnet_counterexample:
  "(0 :: int) < 1 \<and> (1 :: int) \<le> 32 \<and> parseIPv4 ''128.0.0.0'' = Inr 0x80000000
   \<and> splitSubnet ''128.0.0.0'' 0 1 = Inr [''128.0.0.0'', ''0.0.0.0'']
   \<and> parseIPv4 ''0.0.0.0'' = Inr 0 \<and> (0 :: int) \<noteq> 0x80000000 + 1 * 2 ^ (32 - 1)"
  by code_simp


subsection \<open>Subnet containment\<close>

lemma createSubnetMask_Inr:
  "createSubnetMask p = Inr m \<longleftrightarrow> 0 \<le> p \<and> p \<le> 32 \<and> m = 2 ^ 32 - 2 ^ nat (32 - p)"
proof (cases "0 \<le> p \<and> p \<le> 32")
  case True
  then have "p \<in> set [0..32]" by simp
  with createMask_table have "createMask p = Inr (2 ^ 32 - 2 ^ nat (32 - p))" by blast
  with True show ?thesis by (auto simp: createSubnetMask_def)
next
  case False
  then show ?thesis
    by (auto simp: createSubnetMask_def createMask_def IPV4_MIN_PREFIX_LENGTH_def IPV4_MAX_PREFIX_LENGTH_def)
qed

lemma or_mask_int: "(a :: int) OR mask k = a - a mod 2 ^ k + (2 ^ k - 1)"
proof -
  have "(a AND NOT (mask k)) + mask k = (a AND NOT (mask k)) OR mask k"
    by (rule disjunctive_add_eq_or) (simp add: bit_eq_iff bit_simps)
  also have "\<dots> = a OR mask k"
    by (rule bit_eqI) (auto simp: bit_simps)
  finally have "a OR mask k = (a AND NOT (mask k)) + mask k" by simp
  then have "a OR mask k = a - a mod 2 ^ k + mask k"
    by (simp only: and_not_mask_int)
  then show ?thesis
    by (simp add: mask_eq_exp_minus_1)
qed

lemma word_high_mask: "(word_of_int (2 ^ 32 - 2 ^ k) :: 32 word) = NOT (mask k)"
proof -
  have "(word_of_int (2 ^ 32 - 2 ^ k) :: 32 word) = word_of_int (2 ^ 32) - word_of_int (2 ^ k)"
    by (simp only: of_int_diff)
  also have "\<dots> = - (2 ^ k)"
    by simp
  finally show ?thesis by (simp only: minus_exp_eq_not_mask)
qed

lemma broadcast_value:
  assumes "0 \<le> a" "a < 2 ^ 32" "k \<le> 32"
  shows "js_ushr (or_basic a (js_ushr (not_basic (2 ^ 32 - 2 ^ k)) 0)) 0 = a - a mod 2 ^ k + (2 ^ k - 1)"
proof -
  from assms have t: "take_bit 32 a = a" by (simp add: take_bit_eq_mod)
  have "js_ushr (or_basic a (js_ushr (not_basic (2 ^ 32 - 2 ^ k)) 0)) 0
      = uint ((word_of_int a :: 32 word) OR NOT (word_of_int (2 ^ 32 - 2 ^ k)))"
    by (simp add: js_ushr_def or_basic_def not_basic_def js_or_def js_not_def)
  also have "\<dots> = uint ((word_of_int a :: 32 word) OR mask k)"
    by (simp only: word_high_mask bit.double_compl)
  also have "\<dots> = take_bit 32 a OR mask k"
    using assms(3) by (simp add: uint_or uint_word_of_int_eq uint_mask_eq min_def)
  finally show ?thesis
    by (simp only: t or_mask_int)
qed


lemma block_nested:
  fixes a b x :: int
  assumes k: "kA \<le> kB"
    and eq: "a - a mod 2 ^ kB = b - b mod 2 ^ kB"
    and lo: "a - a mod 2 ^ kA \<le> x"
    and hi: "x \<le> a - a mod 2 ^ kA + (2 ^ kA - 1)"
  shows "b - b mod 2 ^ kB \<le> x \<and> x \<le> b - b mod 2 ^ kB + (2 ^ kB - 1)"
proof -
  have pA: "(0 :: int) < 2 ^ kA" and pB: "(0 :: int) < 2 ^ kB" by simp_all
  have "x = 2 ^ kA * (a div 2 ^ kA) + (x - (a - a mod 2 ^ kA))"
    by (simp add: minus_mod_eq_mult_div)
  moreover from lo have "0 \<le> x - (a - a mod 2 ^ kA)" by simp
  moreover from hi have "x - (a - a mod 2 ^ kA) < 2 ^ kA" by simp
  ultimately have dA: "x div 2 ^ kA = a div 2 ^ kA"
    by (rule int_div_pos_eq)
  from k have split: "(2 :: int) ^ kB = 2 ^ kA * 2 ^ (kB - kA)"
    by (simp flip: power_add)
  have "x div 2 ^ kB = (x div 2 ^ kA) div 2 ^ (kB - kA)"
    unfolding split by (rule zdiv_zmult2_eq) simp
  also have "\<dots> = (a div 2 ^ kA) div 2 ^ (kB - kA)"
    by (simp only: dA)
  also have "\<dots> = a div 2 ^ kB"
    unfolding split by (rule zdiv_zmult2_eq [symmetric]) simp
  finally have "x - x mod 2 ^ kB = a - a mod 2 ^ kB"
    by (simp add: minus_mod_eq_mult_div)
  with eq have "x = (b - b mod 2 ^ kB) + x mod 2 ^ kB" by simp
  moreover have "0 \<le> x mod 2 ^ kB" "x mod 2 ^ kB < 2 ^ kB" using pB by simp_all
  ultimately show ?thesis by linarith
qed

lemma getIPRange_value:
  assumes "parseIPv4 A = Inr a" "0 \<le> p" "p \<le> 32"
  shows "getIPRange A p =
    Inr (formatIPv4 (a - a mod 2 ^ nat (32 - p)), formatIPv4 (a - a mod 2 ^ nat (32 - p) + (2 ^ nat (32 - p) - 1)))"
proof -
  from assms(1) have r: "0 \<le> a" "a < 2 ^ 32" using parseIPv4_range [of A a] by simp_all
  have k: "nat (32 - p) \<le> 32" using assms by simp
  from assms have m: "createSubnetMask p = Inr (2 ^ 32 - 2 ^ nat (32 - p))"
    by (simp add: createSubnetMask_Inr)
  have n: "js_ushr (applyMask a (2 ^ 32 - 2 ^ nat (32 - p))) 0 = a - a mod 2 ^ nat (32 - p)"
    using js_ushr_range [of "js_and a (2 ^ 32 - 2 ^ nat (32 - p))" 0]
    by (simp only: flip: applyMask_prefix [OF r k]) (simp add: applyMask_def js_ushr_0_id)
  show ?thesis
    unfolding getIPRange_def calculateNetworkAddress_def calculateBroadcastAddress_def
    by (simp only: assms(1) m and_then_def sum.case Let_def n broadcast_value [OF r k])
qed

lemma getIPRange_Inr:
  "getIPRange A p = Inr r \<Longrightarrow> \<exists>a. parseIPv4 A = Inr a \<and> 0 \<le> p \<and> p \<le> 32"
  by (auto simp: getIPRange_def calculateNetworkAddress_def and_then_def createSubnetMask_Inr
      split: sum.splits)

lemma in_block_iff:
  "in_block x A p \<longleftrightarrow>
     (\<exists>a. parseIPv4 A = Inr a \<and> 0 \<le> p \<and> p \<le> 32
        \<and> a - a mod 2 ^ nat (32 - p) \<le> x \<and> x \<le> a - a mod 2 ^ nat (32 - p) + (2 ^ nat (32 - p) - 1))"
proof (cases "\<exists>a. parseIPv4 A = Inr a \<and> 0 \<le> p \<and> p \<le> 32")
  case False
  with getIPRange_Inr [of A p] have "\<exists>e. getIPRange A p = Inl e"
    by (cases "getIPRange A p") auto
  with False show ?thesis by (auto simp: in_block_def)
next
  case True
  then obtain a where a: "parseIPv4 A = Inr a" "0 \<le> p" "p \<le> 32" by blast
  define k where "k = nat (32 - p)"
  have k: "k \<le> 32" using a by (simp add: k_def)
  from a(1) have r: "0 \<le> a" "a < 2 ^ 32" using parseIPv4_range [of A a] by simp_all
  have lo: "0 \<le> a - a mod 2 ^ k" "a - a mod 2 ^ k < 2 ^ 32"
    using applyMask_prefix [OF r k] js_ushr_range [of "js_and a (2 ^ 32 - 2 ^ k)" 0]
    by (simp_all add: applyMask_def)
  have hi: "0 \<le> a - a mod 2 ^ k + (2 ^ k - 1)" "a - a mod 2 ^ k + (2 ^ k - 1) < 2 ^ 32"
    using broadcast_value [OF r k]
      js_ushr_range [of "or_basic a (js_ushr (not_basic (2 ^ 32 - 2 ^ k)) 0)" 0]
    by simp_all
  from lo hi have p: "parseIPv4 (formatIPv4 (a - a mod 2 ^ k)) = Inr (a - a mod 2 ^ k)"
    "parseIPv4 (formatIPv4 (a - a mod 2 ^ k + (2 ^ k - 1))) = Inr (a - a mod 2 ^ k + (2 ^ k - 1))"
    by (simp_all add: parseIPv4_formatIPv4)
  from a show ?thesis
    by (simp add: in_block_def getIPRange_value [OF a] p flip: k_def)
qed



lemma masked_eq_iff:
  fixes a b :: int
  shows "a - a mod 2 ^ k = b - b mod 2 ^ k \<longleftrightarrow> a div 2 ^ k = b div 2 ^ k"
  by (simp add: minus_mod_eq_mult_div)

text \<open>
  C8. \<open>isSubnetOf A pA B pB\<close> is true if and only if \<open>pA > pB\<close> (strictly: blocks of
  equal prefix are never subsets, a block of itself included) and the network of \<open>A\<close>
  masked to \<open>pB\<close> bits equals the network of \<open>B\<close> masked to \<open>pB\<close> bits, that is,
  the two agree on their top \<open>pB\<close> bits; and whenever it is
  true, every address of the block of \<open>A\<close> (from its network address through its broadcast
  address) lies in the block of \<open>B\<close>.
\<close>

theorem isSubnetOf_containment:
  "(isSubnetOf A pA B pB = Inr True \<longleftrightarrow>
      pA > pB \<and> (\<exists>a b mB. parseIPv4 A = Inr a \<and> parseIPv4 B = Inr b
          \<and> createSubnetMask pB = Inr mB \<and> applyMask a mB = applyMask b mB))
   \<and> (parseIPv4 A = Inr a \<and> parseIPv4 B = Inr b \<and> 0 \<le> pB \<and> pB \<le> 32 \<longrightarrow>
        isSubnetOf A pA B pB = Inr (pA > pB \<and> a div 2 ^ nat (32 - pB) = b div 2 ^ nat (32 - pB)))
   \<and> (isSubnetOf A pA B pB = Inr True \<and> in_block x A pA \<longrightarrow> in_block x B pB)"
proof (intro conjI impI)
  show iff: "isSubnetOf A pA B pB = Inr True \<longleftrightarrow>
      pA > pB \<and> (\<exists>a b mB. parseIPv4 A = Inr a \<and> parseIPv4 B = Inr b
          \<and> createSubnetMask pB = Inr mB \<and> applyMask a mB = applyMask b mB)"
    by (auto simp: isSubnetOf_def and_then_def split: sum.splits)
  {
    assume h: "parseIPv4 A = Inr a \<and> parseIPv4 B = Inr b \<and> 0 \<le> pB \<and> pB \<le> 32"
    define k where "k = nat (32 - pB)"
    from h have k: "k \<le> 32" unfolding k_def by linarith
    from h have ra: "0 \<le> a" "a < 2 ^ 32" and rb: "0 \<le> b" "b < 2 ^ 32"
      using parseIPv4_range [of A a] parseIPv4_range [of B b] by simp_all
    from h have m: "createSubnetMask pB = Inr (2 ^ 32 - 2 ^ k)"
      by (simp add: createSubnetMask_Inr k_def)
    have "applyMask a (2 ^ 32 - 2 ^ k) = applyMask b (2 ^ 32 - 2 ^ k) \<longleftrightarrow> a div 2 ^ k = b div 2 ^ k"
      by (simp only: applyMask_prefix [OF ra k] applyMask_prefix [OF rb k] masked_eq_iff)
    with h m show "isSubnetOf A pA B pB = Inr (pA > pB \<and> a div 2 ^ nat (32 - pB) = b div 2 ^ nat (32 - pB))"
      by (simp add: isSubnetOf_def and_then_def flip: k_def)
  }
  assume h: "isSubnetOf A pA B pB = Inr True \<and> in_block x A pA"
  with iff obtain a b mB where lt: "pB < pA" and a: "parseIPv4 A = Inr a" and b: "parseIPv4 B = Inr b"
    and m: "createSubnetMask pB = Inr mB" and eq: "applyMask a mB = applyMask b mB"
    by blast
  define kA where "kA = nat (32 - pA)"
  define kB where "kB = nat (32 - pB)"
  from m have pB: "0 \<le> pB" "pB \<le> 32" and mB: "mB = 2 ^ 32 - 2 ^ kB"
    by (simp_all add: createSubnetMask_Inr kB_def)
  from a b have ra: "0 \<le> a" "a < 2 ^ 32" and rb: "0 \<le> b" "b < 2 ^ 32"
    using parseIPv4_range [of A a] parseIPv4_range [of B b] by simp_all
  have kB: "kB \<le> 32" using pB by (simp add: kB_def)
  from lt have k: "kA \<le> kB" by (simp add: kA_def kB_def)
  from eq have e: "a - a mod 2 ^ kB = b - b mod 2 ^ kB"
    by (simp only: mB applyMask_prefix [OF ra kB] applyMask_prefix [OF rb kB])
  from h a have bounds: "a - a mod 2 ^ kA \<le> x" "x \<le> a - a mod 2 ^ kA + (2 ^ kA - 1)"
    by (simp_all add: in_block_iff kA_def)
  from block_nested [OF k e bounds] b pB show "in_block x B pB"
    by (simp add: in_block_iff kB_def)
qed

theorem isSubnetOf_containment_witness:
  "isSubnetOf ''192.168.1.0'' 24 ''192.168.0.0'' 16 = Inr True
   \<and> (parseIPv4 ''192.168.1.0'' = Inr 0xC0A80100 \<and> parseIPv4 ''192.168.0.0'' = Inr 0xC0A80000
        \<and> (0 :: int) \<le> 16 \<and> (16 :: int) \<le> 32)
   \<and> ((24 :: int) > 16 \<and> (0xC0A80100 :: int) div 2 ^ nat (32 - 16) = 0xC0A80000 div 2 ^ nat (32 - 16))
   \<and> in_block 0xC0A801FF ''192.168.1.0'' 24
   \<and> in_block 0xC0A801FF ''192.168.0.0'' 16"
proof -
  have p: "parseIPv4 ''192.168.1.0'' = Inr 0xC0A80100" "parseIPv4 ''192.168.0.0'' = Inr 0xC0A80000"
    by code_simp+
  have s: "isSubnetOf ''192.168.1.0'' 24 ''192.168.0.0'' 16 = Inr True" by code_simp
  have i: "in_block 0xC0A801FF ''192.168.1.0'' 24" by code_simp
  from isSubnetOf_containment [of "''192.168.1.0''" 24 "''192.168.0.0''" 16 "0xC0A80100" "0xC0A80000" "0xC0A801FF"] p s i
  show ?thesis by simp
qed

end
